theory Spec2Isabelle
  imports Main "HOL-Library.Word"
begin

section \<open>Models, fields and field introspection\<close>

text \<open>
  The package \<^verbatim>\<open>container\<close> (file \<^verbatim>\<open>pkg/inventory/container/collection.go\<close>) reconciles
  a stored collection of models with a desired one. It relies on three collaborators of
  package \<^verbatim>\<open>model\<close> whose code is not part of the file: the \<^verbatim>\<open>Model\<close> interface
  (method \<^verbatim>\<open>Pk()\<close>), the field introspector \<^verbatim>\<open>Table{}.Fields\<close> with its \<^verbatim>\<open>Field\<close>
  handles, and the transaction \<^verbatim>\<open>Tx\<close>.

  Go's \<^verbatim>\<open>error\<close> values are represented by their message, and a Go type by its name.
\<close>

datatype error = Error string

type_synonym gotype = string

text \<open>
  A run-time panic of Go. The file can raise two: the bounds check of \<^verbatim>\<open>fieldsB[i]\<close>,
  where \<^verbatim>\<open>IndexOutOfRange i n\<close> is "index out of range [i] with length n", and the check
  of \<^verbatim>\<open>Value.Set\<close>, where \<^verbatim>\<open>NotAssignable V T\<close> is "value of type V is not assignable
  to type T".
\<close>

datatype panic = IndexOutOfRange nat nat | NotAssignable gotype gotype

text \<open>
  Package \<^verbatim>\<open>reflect\<close> belongs to Go's library, not to the repository. The file calls
  \<^verbatim>\<open>reflect.DeepEqual\<close> on two field values and \<^verbatim>\<open>Value.Set\<close> with the value of one
  field on another field. Both are taken as they come:
  \<^item> \<open>DeepEqual\<close> is any relation on values. It need not be reflexive: Go's is false of
    a NaN and itself.
  \<^item> \<^verbatim>\<open>Set\<close> stores the value when its type is assignable to the type of the field and
    panics when it is not. A type is assignable to itself; \<open>AssignableTo\<close> holds the
    further pairs that Go's rules admit (an interface and a type that implements it, a
    named type and its unnamed underlying type).
\<close>

record 'v Reflect =
  DeepEqual :: "'v \<Rightarrow> 'v \<Rightarrow> bool"
  AssignableTo :: "gotype \<Rightarrow> gotype \<Rightarrow> bool"

definition assignable :: "'v Reflect \<Rightarrow> gotype \<Rightarrow> gotype \<Rightarrow> bool" where
  "assignable rf V T \<longleftrightarrow> V = T \<or> AssignableTo rf V T"

text \<open>
  Modelled from the spec: \<^verbatim>\<open>model.Field\<close>, the handle on one field of a model that the
  field introspector returns. The spec's contract gives every field a gettable and
  settable value, an is-primary-key flag (\<^verbatim>\<open>f.Pk()\<close>), an is-auto-incremented flag
  (\<^verbatim>\<open>f.Incremented()\<close>) and string-keyed annotations (\<^verbatim>\<open>f.Type.Tag\<close>, here the
  parsed key/value pairs in the order of the tag string). \<open>GoType\<close> is the Go type the
  field is declared with (\<^verbatim>\<open>f.Type.Type\<close>); the fields that introspection lists are
  columns of a table, of concrete types, so the value read from a field is of the field's
  type. Field values are of an arbitrary type \<open>'v\<close>.
\<close>

record 'v Field =
  Name :: string
  FieldPk :: bool
  Incremented :: bool
  Tag :: "(string \<times> string) list"
  GoType :: gotype
  Value :: 'v

text \<open>\<^verbatim>\<open>StructTag.Lookup(key)\<close>: the value of the first pair with that key, if any.\<close>

definition Lookup :: "(string \<times> string) list \<Rightarrow> string \<Rightarrow> string option" where
  "Lookup tag key = map_of tag key"

text \<open>
  Modelled from the spec: a \<^verbatim>\<open>model.Model\<close>. It has its primary key (\<^verbatim>\<open>m.Pk()\<close>) and
  what \<^verbatim>\<open>model.Table{}.Fields(m)\<close> returns for it: the ordered field list and an error,
  which is \<open>None\<close> for Go's \<^verbatim>\<open>nil\<close>.
\<close>

record 'v Model =
  Pk :: string
  fieldList :: "'v Field list"
  fieldsErr :: "error option"

definition Table_Fields :: "'v Model \<Rightarrow> 'v Field list \<times> error option" where
  "Table_Fields m = (fieldList m, fieldsErr m)"

section \<open>The default shepherd\<close>

text \<open>\<^verbatim>\<open>DefaultShepherd.ignored\<close> (lines 227-238).\<close>

definition ignored :: "'v Field \<Rightarrow> bool" where
  "ignored f =
     (if FieldPk f \<or> Incremented f then True
      else (case Lookup (Tag f) ''eq'' of
              Some tag \<Rightarrow> (if tag = ''-'' then True else False)
            | None \<Rightarrow> False))"

text \<open>
  The loop of \<^verbatim>\<open>DefaultShepherd.Equals\<close> (lines 190-201), from index \<open>i\<close> on. Both
  \<^verbatim>\<open>fieldsA[i]\<close> and \<^verbatim>\<open>fieldsB[i]\<close> are read before the field is tested with
  \<^verbatim>\<open>ignored\<close>; the first is in range by the loop condition, the second panics when
  \<open>i\<close> is not below the length of \<open>fieldsB\<close>. The two values are compared with
  \<^verbatim>\<open>reflect.DeepEqual\<close>.
\<close>

function Equals_loop ::
  "'v Reflect \<Rightarrow> 'v Field list \<Rightarrow> 'v Field list \<Rightarrow> nat \<Rightarrow> panic + bool" where
  "Equals_loop rf fieldsA fieldsB i =
     (if i < length fieldsA then
        (if i < length fieldsB then
           (if ignored (fieldsA ! i) then Equals_loop rf fieldsA fieldsB (i + 1)
            else if \<not> DeepEqual rf (Value (fieldsA ! i)) (Value (fieldsB ! i)) then Inr False
            else Equals_loop rf fieldsA fieldsB (i + 1))
         else Inl (IndexOutOfRange i (length fieldsB)))
      else Inr True)"
  by pat_completeness auto
termination
  by (relation "measure (\<lambda>(rf, fieldsA, fieldsB, i). length fieldsA - i)") auto

declare Equals_loop.simps [simp del]

text \<open>\<^verbatim>\<open>DefaultShepherd.Equals\<close> (lines 187-204). Both introspection errors are dropped.\<close>

definition DefaultShepherd_Equals ::
  "'v Reflect \<Rightarrow> 'v Model \<Rightarrow> 'v Model \<Rightarrow> panic + bool" where
  "DefaultShepherd_Equals rf mA mB =
     (let (fieldsA, _) = Table_Fields mA;
          (fieldsB, _) = Table_Fields mB
      in Equals_loop rf fieldsA fieldsB 0)"

text \<open>
  The loop of \<^verbatim>\<open>DefaultShepherd.Update\<close> (lines 211-219). \<^verbatim>\<open>fA.Value.Set\<close> (line 218)
  is handed the value of field B, which is of the type of field B: it panics unless that
  type is assignable to the type of field A, and otherwise writes through the handle into
  model A. The list \<open>fieldsA\<close> carries the fields of A as written so far; a panic ends
  the call, and what had been written is of no further use to the caller of
  \<^verbatim>\<open>Update\<close>, which is unwound.
\<close>

function Update_loop ::
  "'v Reflect \<Rightarrow> 'v Field list \<Rightarrow> 'v Field list \<Rightarrow> nat \<Rightarrow> panic + 'v Field list" where
  "Update_loop rf fieldsA fieldsB i =
     (if i < length fieldsA then
        (if i < length fieldsB then
           (if ignored (fieldsA ! i) then Update_loop rf fieldsA fieldsB (i + 1)
            else if \<not> assignable rf (GoType (fieldsB ! i)) (GoType (fieldsA ! i)) then
              Inl (NotAssignable (GoType (fieldsB ! i)) (GoType (fieldsA ! i)))
            else Update_loop rf
                   (fieldsA[i := (fieldsA ! i)\<lparr>Value := Value (fieldsB ! i)\<rparr>])
                   fieldsB (i + 1))
         else Inl (IndexOutOfRange i (length fieldsB)))
      else Inr fieldsA)"
  by pat_completeness auto
termination
  by (relation "measure (\<lambda>(rf, fieldsA, fieldsB, i). length fieldsA - i)") auto

declare Update_loop.simps [simp del]

text \<open>
  \<^verbatim>\<open>DefaultShepherd.Update\<close> (lines 208-220): the result is model A (stored) after the
  call, or the panic that ended it.
\<close>

definition DefaultShepherd_Update ::
  "'v Reflect \<Rightarrow> 'v Model \<Rightarrow> 'v Model \<Rightarrow> panic + 'v Model" where
  "DefaultShepherd_Update rf mA mB =
     (let (fieldsA, _) = Table_Fields mA;
          (fieldsB, _) = Table_Fields mB
      in case Update_loop rf fieldsA fieldsB 0 of
           Inl p \<Rightarrow> Inl p
         | Inr fieldsA' \<Rightarrow> Inr (mA\<lparr>fieldList := fieldsA'\<rparr>))"

text \<open>
  The \<^verbatim>\<open>Shepherd\<close> interface (lines 16-21). An implementation supplied by the caller is
  any pair of methods; like every Go call, each may end in a panic.
\<close>

record 'v Shepherd =
  Shepherd_Equals :: "'v Model \<Rightarrow> 'v Model \<Rightarrow> panic + bool"
  Shepherd_Update :: "'v Model \<Rightarrow> 'v Model \<Rightarrow> panic + 'v Model"

definition DefaultShepherd :: "'v Reflect \<Rightarrow> 'v Shepherd" where
  "DefaultShepherd rf =
     \<lparr>Shepherd_Equals = DefaultShepherd_Equals rf,
      Shepherd_Update = DefaultShepherd_Update rf\<rparr>"

section \<open>The collection\<close>

text \<open>\<^verbatim>\<open>Disposition\<close> and \<^verbatim>\<open>Dispositions\<close> (lines 25-34); \<open>None\<close> is a \<^verbatim>\<open>nil\<close> model.\<close>

record 'v Disposition =
  stored :: "'v Model option"
  desired :: "'v Model option"

type_synonym 'v Dispositions = "string \<rightharpoonup> 'v Disposition"

text \<open>
  Modelled from the spec: the transaction \<^verbatim>\<open>model.Tx\<close>. Its contract is three operations
  \<^verbatim>\<open>Insert\<close>, \<^verbatim>\<open>Update\<close>, \<^verbatim>\<open>Delete\<close>, each applied at once and answering with an
  error or \<^verbatim>\<open>nil\<close>. What they do is left open: an operation is any function from the
  model and the state \<open>'s\<close> behind the transaction to the answer and the next state.
\<close>

record ('v, 's) TxOps =
  Tx_Insert :: "'v Model \<Rightarrow> 's \<Rightarrow> error option \<times> 's"
  Tx_Update :: "'v Model \<Rightarrow> 's \<Rightarrow> error option \<times> 's"
  Tx_Delete :: "'v Model \<Rightarrow> 's \<Rightarrow> error option \<times> 's"

datatype 'v TxCall = CallInsert "'v Model" | CallUpdate "'v Model" | CallDelete "'v Model"

text \<open>
  \<^verbatim>\<open>Collection\<close> (lines 38-51). \<open>Stored\<close> is what the iterator has yet to yield and
  \<open>Tx\<close> the state behind the transaction. The counters are Go's \<^verbatim>\<open>int\<close> on a 64-bit
  platform, so \<^verbatim>\<open>r.Added++\<close> is addition of words. \<open>TxLog\<close> is not a field of the
  struct: it is the history of the calls made on \<^verbatim>\<open>r.Tx\<close>, each with its answer, kept
  so that their order can be stated.
\<close>

record ('v, 's) Collection =
  Stored :: "'v Model list"
  Tx :: 's
  Shepherd :: "'v Shepherd option"
  Added :: "64 word"
  Updated :: "64 word"
  Deleted :: "64 word"
  TxLog :: "('v TxCall \<times> error option) list"

text \<open>The first loop of \<^verbatim>\<open>dispositions\<close> (lines 96-101), over the stored models.\<close>

fun stored_loop :: "'v Model list \<Rightarrow> 'v Dispositions \<Rightarrow> 'v Dispositions" where
  "stored_loop [] mp = mp"
| "stored_loop (m # ms) mp =
     stored_loop ms (mp(Pk m \<mapsto> \<lparr>stored = Some m, desired = None\<rparr>))"

text \<open>The second loop (lines 102-111), over the desired models.\<close>

fun desired_loop :: "'v Model list \<Rightarrow> 'v Dispositions \<Rightarrow> 'v Dispositions" where
  "desired_loop [] mp = mp"
| "desired_loop (m # ms) mp =
     (case mp (Pk m) of
        None \<Rightarrow> desired_loop ms (mp(Pk m \<mapsto> \<lparr>stored = None, desired = Some m\<rparr>))
      | Some dpn \<Rightarrow> desired_loop ms (mp(Pk m \<mapsto> dpn\<lparr>desired := Some m\<rparr>)))"

text \<open>
  \<^verbatim>\<open>Collection.dispositions\<close> (lines 94-114). It drains \<^verbatim>\<open>r.Stored\<close>, so the
  collection is returned with nothing left to yield.
\<close>

definition Collection_dispositions ::
  "('v, 's) Collection \<Rightarrow> 'v Model list \<Rightarrow> 'v Dispositions \<times> ('v, 's) Collection" where
  "Collection_dispositions r desiredModels =
     (desired_loop desiredModels (stored_loop (Stored r) Map.empty), r\<lparr>Stored := []\<rparr>)"

text \<open>
  Go leaves the order of a \<^verbatim>\<open>range\<close> over a map open and picks one afresh for every
  loop. Each phase therefore takes the order \<open>ks\<close> in which its \<^verbatim>\<open>range\<close> visits the keys;
  \<open>range_order\<close> says that \<open>ks\<close> is such an order: every key of the map, once. A key that
  is not in the map has no entry to visit.
\<close>

definition range_order :: "'v Dispositions \<Rightarrow> string list \<Rightarrow> bool" where
  "range_order mp ks \<longleftrightarrow> distinct ks \<and> set ks = dom mp"

text \<open>\<^verbatim>\<open>Collection.add\<close> (lines 118-131).\<close>

fun Collection_add ::
  "('v, 's) TxOps \<Rightarrow> string list \<Rightarrow> 'v Dispositions \<Rightarrow> ('v, 's) Collection \<Rightarrow>
   error option \<times> ('v, 's) Collection" where
  "Collection_add tx [] dispositions r = (None, r)"
| "Collection_add tx (k # ks) dispositions r =
     (case dispositions k of
        None \<Rightarrow> Collection_add tx ks dispositions r
      | Some dpn \<Rightarrow>
          (if desired dpn \<noteq> None \<and> stored dpn = None then
             (case Tx_Insert tx (the (desired dpn)) (Tx r) of
                (None, t) \<Rightarrow>
                  Collection_add tx ks dispositions
                    (r\<lparr>Tx := t, Added := Added r + 1,
                       TxLog := TxLog r @ [(CallInsert (the (desired dpn)), None)]\<rparr>)
              | (Some err, t) \<Rightarrow>
                  (Some err,
                   r\<lparr>Tx := t, TxLog := TxLog r @ [(CallInsert (the (desired dpn)), Some err)]\<rparr>))
           else Collection_add tx ks dispositions r))"

text \<open>\<^verbatim>\<open>Collection.delete\<close> (lines 161-174).\<close>

fun Collection_delete ::
  "('v, 's) TxOps \<Rightarrow> string list \<Rightarrow> 'v Dispositions \<Rightarrow> ('v, 's) Collection \<Rightarrow>
   error option \<times> ('v, 's) Collection" where
  "Collection_delete tx [] dispositions r = (None, r)"
| "Collection_delete tx (k # ks) dispositions r =
     (case dispositions k of
        None \<Rightarrow> Collection_delete tx ks dispositions r
      | Some dpn \<Rightarrow>
          (if stored dpn \<noteq> None \<and> desired dpn = None then
             (case Tx_Delete tx (the (stored dpn)) (Tx r) of
                (None, t) \<Rightarrow>
                  Collection_delete tx ks dispositions
                    (r\<lparr>Tx := t, Deleted := Deleted r + 1,
                       TxLog := TxLog r @ [(CallDelete (the (stored dpn)), None)]\<rparr>)
              | (Some err, t) \<Rightarrow>
                  (Some err,
                   r\<lparr>Tx := t, TxLog := TxLog r @ [(CallDelete (the (stored dpn)), Some err)]\<rparr>))
           else Collection_delete tx ks dispositions r))"

text \<open>
  How a call of the collection ends: it returns its \<^verbatim>\<open>err\<close> (\<open>None\<close> for \<^verbatim>\<open>nil\<close>), or a
  panic of the shepherd unwinds it.
\<close>

datatype outcome = Return "error option" | Panicked panic

text \<open>
  The loop of \<^verbatim>\<open>Collection.update\<close> (lines 140-154) for the shepherd chosen before it.
  The stored model is a pointer: what \<^verbatim>\<open>shepherd.Update\<close> leaves in it is the model
  handed to \<^verbatim>\<open>r.Tx.Update\<close>.
\<close>

fun update_loop ::
  "('v, 's) TxOps \<Rightarrow> 'v Shepherd \<Rightarrow> string list \<Rightarrow> 'v Dispositions \<Rightarrow>
   ('v, 's) Collection \<Rightarrow> outcome \<times> ('v, 's) Collection" where
  "update_loop tx shepherd [] dispositions r = (Return None, r)"
| "update_loop tx shepherd (k # ks) dispositions r =
     (case dispositions k of
        None \<Rightarrow> update_loop tx shepherd ks dispositions r
      | Some dpn \<Rightarrow>
          (if desired dpn = None \<or> stored dpn = None then
             update_loop tx shepherd ks dispositions r
           else
             (case Shepherd_Equals shepherd (the (desired dpn)) (the (stored dpn)) of
                Inl p \<Rightarrow> (Panicked p, r)
              | Inr True \<Rightarrow> update_loop tx shepherd ks dispositions r
              | Inr False \<Rightarrow>
                  (case Shepherd_Update shepherd (the (stored dpn)) (the (desired dpn)) of
                     Inl p \<Rightarrow> (Panicked p, r)
                   | Inr stored' \<Rightarrow>
                       (case Tx_Update tx stored' (Tx r) of
                          (None, t) \<Rightarrow>
                            update_loop tx shepherd ks dispositions
                              (r\<lparr>Tx := t, Updated := Updated r + 1,
                                 TxLog := TxLog r @ [(CallUpdate stored', None)]\<rparr>)
                        | (Some err, t) \<Rightarrow>
                            (Return (Some err),
                             r\<lparr>Tx := t, TxLog := TxLog r @ [(CallUpdate stored', Some err)]\<rparr>))))))"

text \<open>
  \<^verbatim>\<open>Collection.update\<close> (lines 135-157): a \<^verbatim>\<open>nil\<close> shepherd is the default one, which
  works with \<^verbatim>\<open>reflect\<close>.
\<close>

definition Collection_update ::
  "'v Reflect \<Rightarrow> ('v, 's) TxOps \<Rightarrow> string list \<Rightarrow> 'v Dispositions \<Rightarrow>
   ('v, 's) Collection \<Rightarrow> outcome \<times> ('v, 's) Collection" where
  "Collection_update rf tx ks dispositions r =
     update_loop tx
       (case Shepherd r of None \<Rightarrow> DefaultShepherd rf | Some shepherd \<Rightarrow> shepherd)
       ks dispositions r"

text \<open>\<^verbatim>\<open>Collection.Add\<close>, \<^verbatim>\<open>Collection.Update\<close>, \<^verbatim>\<open>Collection.Delete\<close> (lines 55-69).\<close>

definition Collection_Add ::
  "('v, 's) TxOps \<Rightarrow> string list \<Rightarrow> 'v Model list \<Rightarrow> ('v, 's) Collection \<Rightarrow>
   error option \<times> ('v, 's) Collection" where
  "Collection_Add tx ks desiredModels r =
     (case Collection_dispositions r desiredModels of (mp, r0) \<Rightarrow> Collection_add tx ks mp r0)"

definition Collection_Update ::
  "'v Reflect \<Rightarrow> ('v, 's) TxOps \<Rightarrow> string list \<Rightarrow> 'v Model list \<Rightarrow>
   ('v, 's) Collection \<Rightarrow> outcome \<times> ('v, 's) Collection" where
  "Collection_Update rf tx ks desiredModels r =
     (case Collection_dispositions r desiredModels of
        (mp, r0) \<Rightarrow> Collection_update rf tx ks mp r0)"

definition Collection_Delete ::
  "('v, 's) TxOps \<Rightarrow> string list \<Rightarrow> 'v Model list \<Rightarrow> ('v, 's) Collection \<Rightarrow>
   error option \<times> ('v, 's) Collection" where
  "Collection_Delete tx ks desiredModels r =
     (case Collection_dispositions r desiredModels of (mp, r0) \<Rightarrow> Collection_delete tx ks mp r0)"

text \<open>
  \<^verbatim>\<open>Collection.Reconcile\<close> (lines 74-90); \<open>kd\<close>, \<open>ka\<close> and \<open>ku\<close> are the orders of the
  three \<^verbatim>\<open>range\<close> loops.
\<close>

definition Collection_Reconcile ::
  "'v Reflect \<Rightarrow> ('v, 's) TxOps \<Rightarrow> string list \<Rightarrow> string list \<Rightarrow> string list \<Rightarrow>
   'v Model list \<Rightarrow> ('v, 's) Collection \<Rightarrow> outcome \<times> ('v, 's) Collection" where
  "Collection_Reconcile rf tx kd ka ku desiredModels r =
     (case Collection_dispositions r desiredModels of
        (mp, r0) \<Rightarrow>
          (case Collection_delete tx kd mp r0 of
             (Some err, r1) \<Rightarrow> (Return (Some err), r1)
           | (None, r1) \<Rightarrow>
               (case Collection_add tx ka mp r1 of
                  (Some err, r2) \<Rightarrow> (Return (Some err), r2)
                | (None, r2) \<Rightarrow> Collection_update rf tx ku mp r2)))"

section \<open>Notions used to state the properties\<close>

subsection \<open>Fields\<close>

text \<open>
  The field exclusion rule in the words of the specification: a field is ignored iff it is
  the primary key, or it is auto-incremented, or it carries the exclusion tag \<^verbatim>\<open>eq\<close> with
  the value \<^verbatim>\<open>-\<close>. It is compared with \<open>ignored\<close>, which follows the code.
\<close>

definition exclusion_rule :: "'v Field \<Rightarrow> bool" where
  "exclusion_rule f \<longleftrightarrow>
     FieldPk f \<or> Incremented f \<or> Lookup (Tag f) ''eq'' = Some ''-''"

text \<open>
  Index \<open>j\<close> is a mismatch of two field lists: it is in range of both, the field of the
  first list is not ignored, and \<^verbatim>\<open>reflect.DeepEqual\<close> does not hold of the two values.
\<close>

definition mismatch :: "'v Reflect \<Rightarrow> 'v Field list \<Rightarrow> 'v Field list \<Rightarrow> nat \<Rightarrow> bool" where
  "mismatch rf fieldsA fieldsB j \<longleftrightarrow>
     j < length fieldsA \<and> j < length fieldsB \<and>
     \<not> ignored (fieldsA ! j) \<and> \<not> DeepEqual rf (Value (fieldsA ! j)) (Value (fieldsB ! j))"

text \<open>
  Index \<open>j\<close> blocks the merge of list B into list A: it is in range of A, and either B
  has no field there, or the field of A is not ignored and the type of B's field is not
  assignable to it. \<open>block_panic\<close> is the panic that \<^verbatim>\<open>Update\<close> ends with at such an
  index.
\<close>

definition blocked :: "'v Reflect \<Rightarrow> 'v Field list \<Rightarrow> 'v Field list \<Rightarrow> nat \<Rightarrow> bool" where
  "blocked rf fieldsA fieldsB j \<longleftrightarrow>
     j < length fieldsA \<and>
     (length fieldsB \<le> j \<or>
      \<not> ignored (fieldsA ! j) \<and>
      \<not> assignable rf (GoType (fieldsB ! j)) (GoType (fieldsA ! j)))"

definition block_panic :: "'v Field list \<Rightarrow> 'v Field list \<Rightarrow> nat \<Rightarrow> panic" where
  "block_panic fieldsA fieldsB j =
     (if length fieldsB \<le> j then IndexOutOfRange j (length fieldsB)
      else NotAssignable (GoType (fieldsB ! j)) (GoType (fieldsA ! j)))"

text \<open>
  Two models are of the same type when introspection lists the same fields for both, in
  the same order: equal names, flags, tags and Go types at every position. Only the values
  may differ.
\<close>

definition field_kind ::
  "'v Field \<Rightarrow> string \<times> bool \<times> bool \<times> (string \<times> string) list \<times> gotype" where
  "field_kind f = (Name f, FieldPk f, Incremented f, Tag f, GoType f)"

definition same_type :: "'v Model \<Rightarrow> 'v Model \<Rightarrow> bool" where
  "same_type mA mB \<longleftrightarrow> map field_kind (fieldList mA) = map field_kind (fieldList mB)"

text \<open>
  \<^verbatim>\<open>reflect.DeepEqual\<close> holds of every compared value of the model and itself: none is a
  NaN, or another value that \<^verbatim>\<open>DeepEqual\<close> tells apart from itself.
\<close>

definition self_equal :: "'v Reflect \<Rightarrow> 'v Model \<Rightarrow> bool" where
  "self_equal rf d \<longleftrightarrow>
     (\<forall>f \<in> set (fieldList d). \<not> ignored f \<longrightarrow> DeepEqual rf (Value f) (Value f))"

text \<open>
  The field of model A at position \<open>j\<close> once the loop of \<^verbatim>\<open>Update\<close> has run from index
  \<open>i\<close> to the end.
\<close>

definition merged_field :: "'v Field list \<Rightarrow> 'v Field list \<Rightarrow> nat \<Rightarrow> nat \<Rightarrow> 'v Field" where
  "merged_field fieldsA fieldsB i j =
     (if i \<le> j \<and> \<not> ignored (fieldsA ! j)
      then (fieldsA ! j)\<lparr>Value := Value (fieldsB ! j)\<rparr> else fieldsA ! j)"

subsection \<open>Sample models\<close>

text \<open>
  Models of a small struct, as Go would declare it: a primary key \<^verbatim>\<open>ID\<close>, an
  auto-incremented \<^verbatim>\<open>Rev\<close>, a field \<^verbatim>\<open>Note\<close> tagged \<^verbatim>\<open>eq:"-"\<close>, and the plain fields
  \<^verbatim>\<open>Name\<close> and \<^verbatim>\<open>Age\<close>. All its fields are of type \<^verbatim>\<open>int\<close>, on which
  \<^verbatim>\<open>reflect.DeepEqual\<close> is equality and to which no other type is assignable.
\<close>

definition reflect_int :: "int Reflect" where
  "reflect_int = \<lparr>DeepEqual = (\<lambda>a b. a = b), AssignableTo = (\<lambda>V T. False)\<rparr>"

definition plain_field :: "string \<Rightarrow> gotype \<Rightarrow> 'v \<Rightarrow> 'v Field" where
  "plain_field n ty v =
     \<lparr>Name = n, FieldPk = False, Incremented = False, Tag = [], GoType = ty, Value = v\<rparr>"

definition key_field :: "string \<Rightarrow> gotype \<Rightarrow> 'v \<Rightarrow> 'v Field" where
  "key_field n ty v =
     \<lparr>Name = n, FieldPk = True, Incremented = False, Tag = [(''sql'', ''pk'')], GoType = ty,
      Value = v\<rparr>"

definition serial_field :: "string \<Rightarrow> gotype \<Rightarrow> 'v \<Rightarrow> 'v Field" where
  "serial_field n ty v =
     \<lparr>Name = n, FieldPk = False, Incremented = True, Tag = [(''sql'', ''incremented'')],
      GoType = ty, Value = v\<rparr>"

definition untracked_field :: "string \<Rightarrow> gotype \<Rightarrow> 'v \<Rightarrow> 'v Field" where
  "untracked_field n ty v =
     \<lparr>Name = n, FieldPk = False, Incremented = False, Tag = [(''sql'', ''''), (''eq'', ''-'')],
      GoType = ty, Value = v\<rparr>"

definition person :: "string \<Rightarrow> int \<Rightarrow> int \<Rightarrow> int \<Rightarrow> int \<Rightarrow> int Model" where
  "person k revision note name age =
     \<lparr>Pk = k,
      fieldList = [key_field ''ID'' ''int'' 0, serial_field ''Rev'' ''int'' revision,
                   untracked_field ''Note'' ''int'' note,
                   plain_field ''Name'' ''int'' name, plain_field ''Age'' ''int'' age],
      fieldsErr = None\<rparr>"

text \<open>The same struct after it gained a plain field \<^verbatim>\<open>Email\<close> at its end.\<close>

definition person_v2 :: "string \<Rightarrow> int \<Rightarrow> int \<Rightarrow> int \<Rightarrow> int \<Rightarrow> int \<Rightarrow> int Model" where
  "person_v2 k revision note name age email =
     \<lparr>Pk = k,
      fieldList = [key_field ''ID'' ''int'' 0, serial_field ''Rev'' ''int'' revision,
                   untracked_field ''Note'' ''int'' note,
                   plain_field ''Name'' ''int'' name, plain_field ''Age'' ''int'' age,
                   plain_field ''Email'' ''int'' email],
      fieldsErr = None\<rparr>"

text \<open>A value that introspection rejects: no fields, and an error.\<close>

definition opaque :: "string \<Rightarrow> int Model" where
  "opaque k = \<lparr>Pk = k, fieldList = [], fieldsErr = Some (Error ''must be a struct'')\<rparr>"

text \<open>
  Values of more than one type: whole numbers, text and floating-point numbers, among them
  the NaN. \<^verbatim>\<open>reflect.DeepEqual\<close> is equality on them but for the NaN, which it tells
  apart from every value, itself included; none of the three types is assignable to
  another.
\<close>

datatype govalue = IntV int | StringV string | FloatV int | NaN

definition reflect_go :: "govalue Reflect" where
  "reflect_go =
     \<lparr>DeepEqual = (\<lambda>a b. a = b \<and> a \<noteq> NaN), AssignableTo = (\<lambda>V T. False)\<rparr>"

text \<open>
  Two structs with a key \<^verbatim>\<open>ID\<close> and a field \<^verbatim>\<open>Name\<close>, which is an \<^verbatim>\<open>int\<close> in the
  first and a \<^verbatim>\<open>string\<close> in the second; and a struct with a key and a field \<^verbatim>\<open>Temp\<close>
  of type \<^verbatim>\<open>float64\<close>.
\<close>

definition name_int :: "string \<Rightarrow> int \<Rightarrow> govalue Model" where
  "name_int k n =
     \<lparr>Pk = k,
      fieldList = [key_field ''ID'' ''int'' (IntV 0), plain_field ''Name'' ''int'' (IntV n)],
      fieldsErr = None\<rparr>"

definition name_str :: "string \<Rightarrow> string \<Rightarrow> govalue Model" where
  "name_str k n =
     \<lparr>Pk = k,
      fieldList = [key_field ''ID'' ''int'' (IntV 0),
                   plain_field ''Name'' ''string'' (StringV n)],
      fieldsErr = None\<rparr>"

definition reading :: "string \<Rightarrow> govalue \<Rightarrow> govalue Model" where
  "reading k v =
     \<lparr>Pk = k,
      fieldList = [key_field ''ID'' ''int'' (IntV 0), plain_field ''Temp'' ''float64'' v],
      fieldsErr = None\<rparr>"

subsection \<open>Dispositions\<close>

text \<open>The model a sequence yields last under key \<open>k\<close>, if it yields one at all.\<close>

fun last_with_pk :: "string \<Rightarrow> 'v Model list \<Rightarrow> 'v Model option" where
  "last_with_pk k [] = None"
| "last_with_pk k (m # ms) =
     (case last_with_pk k ms of
        Some m' \<Rightarrow> Some m'
      | None \<Rightarrow> (if Pk m = k then Some m else None))"

text \<open>The map that \<^verbatim>\<open>dispositions\<close> builds for a collection and a desired sequence.\<close>

definition disposition_map :: "('v, 's) Collection \<Rightarrow> 'v Model list \<Rightarrow> 'v Dispositions" where
  "disposition_map r desiredModels = fst (Collection_dispositions r desiredModels)"

text \<open>
  The keys each phase acts on, by the test of its loop: \<^verbatim>\<open>add\<close> (line 120),
  \<^verbatim>\<open>update\<close> (line 141, the entries it does not pass over) and \<^verbatim>\<open>delete\<close> (line 163).
  \<open>void_set\<close> holds the keys whose entry has neither model.
\<close>

definition add_set :: "'v Dispositions \<Rightarrow> string set" where
  "add_set mp = {k. \<exists>dpn. mp k = Some dpn \<and> desired dpn \<noteq> None \<and> stored dpn = None}"

definition update_set :: "'v Dispositions \<Rightarrow> string set" where
  "update_set mp = {k. \<exists>dpn. mp k = Some dpn \<and> \<not> (desired dpn = None \<or> stored dpn = None)}"

definition delete_set :: "'v Dispositions \<Rightarrow> string set" where
  "delete_set mp = {k. \<exists>dpn. mp k = Some dpn \<and> stored dpn \<noteq> None \<and> desired dpn = None}"

definition void_set :: "'v Dispositions \<Rightarrow> string set" where
  "void_set mp = {k. \<exists>dpn. mp k = Some dpn \<and> stored dpn = None \<and> desired dpn = None}"

subsection \<open>Calls on the transaction\<close>

text \<open>One call on the transaction, and a sequence of calls with their answers.\<close>

definition Tx_call :: "('v, 's) TxOps \<Rightarrow> 'v TxCall \<Rightarrow> 's \<Rightarrow> error option \<times> 's" where
  "Tx_call tx c s =
     (case c of
        CallInsert m \<Rightarrow> Tx_Insert tx m s
      | CallUpdate m \<Rightarrow> Tx_Update tx m s
      | CallDelete m \<Rightarrow> Tx_Delete tx m s)"

fun run_calls :: "('v, 's) TxOps \<Rightarrow> 'v TxCall list \<Rightarrow> 's \<Rightarrow> error option list \<times> 's" where
  "run_calls tx [] s = ([], s)"
| "run_calls tx (c # cs) s =
     (case Tx_call tx c s of
        (e, t) \<Rightarrow> (case run_calls tx cs t of (es, u) \<Rightarrow> (e # es, u)))"

text \<open>
  The calls a phase has to make for the entry of key \<open>k\<close> (none or one), and for the keys
  \<open>ks\<close> in the order of its \<^verbatim>\<open>range\<close>. For the update phase the call depends on the
  shepherd: there is one iff \<^verbatim>\<open>Equals(desired, stored)\<close> returns false, and it passes the
  stored model as \<^verbatim>\<open>Update(stored, desired)\<close> leaves it.
\<close>

definition add_call :: "'v Dispositions \<Rightarrow> string \<Rightarrow> 'v TxCall list" where
  "add_call mp k =
     (case mp k of
        None \<Rightarrow> []
      | Some dpn \<Rightarrow>
          (if desired dpn \<noteq> None \<and> stored dpn = None then [CallInsert (the (desired dpn))]
           else []))"

definition delete_call :: "'v Dispositions \<Rightarrow> string \<Rightarrow> 'v TxCall list" where
  "delete_call mp k =
     (case mp k of
        None \<Rightarrow> []
      | Some dpn \<Rightarrow>
          (if stored dpn \<noteq> None \<and> desired dpn = None then [CallDelete (the (stored dpn))]
           else []))"

definition update_call :: "'v Shepherd \<Rightarrow> 'v Dispositions \<Rightarrow> string \<Rightarrow> 'v TxCall list" where
  "update_call shepherd mp k =
     (case mp k of
        None \<Rightarrow> []
      | Some dpn \<Rightarrow>
          (if desired dpn = None \<or> stored dpn = None then []
           else
             (case Shepherd_Equals shepherd (the (desired dpn)) (the (stored dpn)) of
                Inr False \<Rightarrow>
                  (case Shepherd_Update shepherd (the (stored dpn)) (the (desired dpn)) of
                     Inr stored' \<Rightarrow> [CallUpdate stored']
                   | Inl p \<Rightarrow> [])
              | _ \<Rightarrow> [])))"

definition add_calls :: "'v Dispositions \<Rightarrow> string list \<Rightarrow> 'v TxCall list" where
  "add_calls mp ks = concat (map (add_call mp) ks)"

definition delete_calls :: "'v Dispositions \<Rightarrow> string list \<Rightarrow> 'v TxCall list" where
  "delete_calls mp ks = concat (map (delete_call mp) ks)"

definition update_calls :: "'v Shepherd \<Rightarrow> 'v Dispositions \<Rightarrow> string list \<Rightarrow> 'v TxCall list" where
  "update_calls shepherd mp ks = concat (map (update_call shepherd mp) ks)"

text \<open>The shepherd the update phase works with (lines 136-139).\<close>

definition shepherd_of :: "'v Reflect \<Rightarrow> ('v, 's) Collection \<Rightarrow> 'v Shepherd" where
  "shepherd_of rf r =
     (case Shepherd r of None \<Rightarrow> DefaultShepherd rf | Some shepherd \<Rightarrow> shepherd)"

text \<open>
  A phase in the words of the specification: it has steps to take, in the order of its
  \<^verbatim>\<open>range\<close>, and takes them one after the other until one fails. A step is a call on the
  transaction or, in the update phase, a panic of the shepherd. \<open>run_steps\<close> takes the
  steps from the state \<open>s\<close> behind the transaction: a call that answers \<^verbatim>\<open>nil\<close> is logged
  and the next step is taken in the state the call left; the first call that answers with
  an error is logged and ends the run, which returns this error and the state the call
  left; a panic ends the run at once. Nothing is undone.
\<close>

datatype 'v step = Call "'v TxCall" | Panic panic

fun run_steps ::
  "('v, 's) TxOps \<Rightarrow> 'v step list \<Rightarrow> 's \<Rightarrow> ('v TxCall \<times> error option) list \<times> 's \<times> outcome" where
  "run_steps tx [] s = ([], s, Return None)"
| "run_steps tx (Panic p # steps) s = ([], s, Panicked p)"
| "run_steps tx (Call c # steps) s =
     (case Tx_call tx c s of
        (None, t) \<Rightarrow>
          (case run_steps tx steps t of (new, s', out) \<Rightarrow> ((c, None) # new, s', out))
      | (Some err, t) \<Rightarrow> ([(c, Some err)], t, Return (Some err)))"

text \<open>The number of calls of a log that succeeded.\<close>

definition successes :: "('v TxCall \<times> error option) list \<Rightarrow> nat" where
  "successes new = length (filter (\<lambda>x. snd x = None) new)"

text \<open>
  The steps of the three phases for the keys \<open>ks\<close>. Those of the add and of the delete phase
  are their calls. For an entry with both models the update phase has no step when
  \<^verbatim>\<open>Equals(desired, stored)\<close> returns true, the call of \<^verbatim>\<open>Update\<close> on the merged stored
  model when it returns false, and a panic when \<^verbatim>\<open>Equals\<close> or the merge panics.
\<close>

definition add_steps :: "'v Dispositions \<Rightarrow> string list \<Rightarrow> 'v step list" where
  "add_steps mp ks = map Call (add_calls mp ks)"

definition delete_steps :: "'v Dispositions \<Rightarrow> string list \<Rightarrow> 'v step list" where
  "delete_steps mp ks = map Call (delete_calls mp ks)"

definition update_step :: "'v Shepherd \<Rightarrow> 'v Dispositions \<Rightarrow> string \<Rightarrow> 'v step list" where
  "update_step shepherd mp k =
     (case mp k of
        None \<Rightarrow> []
      | Some dpn \<Rightarrow>
          (if desired dpn = None \<or> stored dpn = None then []
           else
             (case Shepherd_Equals shepherd (the (desired dpn)) (the (stored dpn)) of
                Inl p \<Rightarrow> [Panic p]
              | Inr True \<Rightarrow> []
              | Inr False \<Rightarrow>
                  (case Shepherd_Update shepherd (the (stored dpn)) (the (desired dpn)) of
                     Inl p \<Rightarrow> [Panic p]
                   | Inr stored' \<Rightarrow> [Call (CallUpdate stored')]))))"

definition update_steps :: "'v Shepherd \<Rightarrow> 'v Dispositions \<Rightarrow> string list \<Rightarrow> 'v step list" where
  "update_steps shepherd mp ks = concat (map (update_step shepherd mp) ks)"

text \<open>
  What a phase leaves behind. From the state \<open>s\<close> behind the transaction it made the calls
  \<open>new\<close>, logged with their answers, and reached the state \<open>s'\<close>:
  \<^item> the first \<open>n\<close> calls succeeded, and only when the phase returns an error is there one
    more call, the last, which answered with that very error;
  \<^item> the calls are the first ones of the \<open>plan\<close>, and all of it when the phase returns \<^verbatim>\<open>nil\<close>;
  \<^item> \<open>s'\<close> is the state after exactly these calls, applied one after the other.
\<close>

definition phase_log ::
  "('v, 's) TxOps \<Rightarrow> 'v TxCall list \<Rightarrow> 's \<Rightarrow> outcome \<Rightarrow>
   ('v TxCall \<times> error option) list \<Rightarrow> nat \<Rightarrow> 's \<Rightarrow> bool" where
  "phase_log tx plan s out new n s' \<longleftrightarrow>
     map snd new =
       replicate n None @ (case out of Return (Some err) \<Rightarrow> [Some err] | _ \<Rightarrow> []) \<and>
     map fst new = take (length new) plan \<and>
     (out = Return None \<longrightarrow> map fst new = plan) \<and>
     run_calls tx (map fst new) s = (map snd new, s')"

subsection \<open>A transaction that persists\<close>

text \<open>
  The transaction is a parameter of every phase. Where a property supposes that it persists
  what it is told, it is this one, on a table with one row per primary key:
  \<^verbatim>\<open>Insert\<close> adds the row of a key the table does not have, \<^verbatim>\<open>Update\<close> replaces
  and \<^verbatim>\<open>Delete\<close> removes the row of a key it has; otherwise the call fails and the
  table is as before.
\<close>

definition table_Tx :: "('v, string \<rightharpoonup> 'v Model) TxOps" where
  "table_Tx =
     \<lparr>Tx_Insert = (\<lambda>m table. case table (Pk m) of
                       None \<Rightarrow> (None, table(Pk m \<mapsto> m))
                     | Some _ \<Rightarrow> (Some (Error ''duplicate key''), table)),
      Tx_Update = (\<lambda>m table. case table (Pk m) of
                       None \<Rightarrow> (Some (Error ''not found''), table)
                     | Some _ \<Rightarrow> (None, table(Pk m \<mapsto> m))),
      Tx_Delete = (\<lambda>m table. case table (Pk m) of
                       None \<Rightarrow> (Some (Error ''not found''), table)
                     | Some _ \<Rightarrow> (None, table(Pk m := None)))\<rparr>"

text \<open>
  The table with the rows \<open>ms\<close>; and: the sequence \<open>ms\<close> lists the table, one model per
  row, each under its own key.
\<close>

definition table_of :: "'v Model list \<Rightarrow> (string \<rightharpoonup> 'v Model)" where
  "table_of ms = map_of (map (\<lambda>m. (Pk m, m)) ms)"

definition lists_table :: "'v Model list \<Rightarrow> (string \<rightharpoonup> 'v Model) \<Rightarrow> bool" where
  "lists_table ms table \<longleftrightarrow> distinct (map Pk ms) \<and> table = table_of ms"

subsection \<open>Sample collections\<close>

text \<open>A fresh collection over a stored sequence and a transaction state.\<close>

definition collection_of ::
  "'v Model list \<Rightarrow> 's \<Rightarrow> 'v Shepherd option \<Rightarrow> ('v, 's) Collection" where
  "collection_of ms s shepherd =
     \<lparr>Stored = ms, Tx = s, Shepherd = shepherd, Added = 0, Updated = 0, Deleted = 0,
      TxLog = []\<rparr>"

text \<open>
  The stored and the desired models of a run: model 1 is to be deleted, model 4 to be
  added; model 2 differs in ignored fields only and model 3 in its \<^verbatim>\<open>Age\<close>.
\<close>

definition stored_sample :: "int Model list" where
  "stored_sample = [person ''1'' 1 0 10 20, person ''2'' 1 0 11 21, person ''3'' 1 0 12 22]"

definition desired_sample :: "int Model list" where
  "desired_sample = [person ''2'' 0 5 11 21, person ''3'' 0 5 12 23, person ''4'' 0 5 13 24]"

text \<open>
  Two shepherds a caller could supply. The first deems a stored model up to date when its
  \<^verbatim>\<open>Rev\<close> is at least the desired one's, so the order of the two arguments of its
  \<^verbatim>\<open>Equals\<close> matters. The second never deems two models equal. Both merge by taking the
  fields of the desired model.
\<close>

definition revision_of :: "int Model \<Rightarrow> int" where
  "revision_of m = (case fieldList m of _ # f # _ \<Rightarrow> Value f | _ \<Rightarrow> 0)"

definition up_to_date_shepherd :: "int Shepherd" where
  "up_to_date_shepherd =
     \<lparr>Shepherd_Equals = (\<lambda>mA mB. Inr (revision_of mB \<le> revision_of mA)),
      Shepherd_Update = (\<lambda>st d. Inr (st\<lparr>fieldList := fieldList d\<rparr>))\<rparr>"

definition restless_shepherd :: "int Shepherd" where
  "restless_shepherd =
     \<lparr>Shepherd_Equals = (\<lambda>mA mB. Inr False),
      Shepherd_Update = (\<lambda>st d. Inr (st\<lparr>fieldList := fieldList d\<rparr>))\<rparr>"

text \<open>
  Collections before and after a run of \<^verbatim>\<open>Reconcile\<close> with the desired models above, the
  three loops visiting the keys in the orders \<open>kd_sample\<close>, \<open>ka_sample\<close> and \<open>ku_sample\<close>:
  \<^item> on the table that holds the stored models, where every call succeeds;
  \<^item> on a table that has lost the row of model 1, where the delete fails;
  \<^item> on a table that has a row under key 4 which the stored sequence does not list, where
    the insert fails.
\<close>

definition kd_sample :: "string list" where
  "kd_sample = [''1'', ''2'', ''3'', ''4'']"

definition ka_sample :: "string list" where
  "ka_sample = [''4'', ''3'', ''2'', ''1'']"

definition ku_sample :: "string list" where
  "ku_sample = [''2'', ''4'', ''1'', ''3'']"

definition sample_start :: "(int, string \<rightharpoonup> int Model) Collection" where
  "sample_start = collection_of stored_sample (table_of stored_sample) None"

definition sample_end :: "(int, string \<rightharpoonup> int Model) Collection" where
  "sample_end =
     \<lparr>Stored = [], Tx = table_of [person ''2'' 1 0 11 21, person ''3'' 1 0 12 23, person ''4'' 0 5 13 24],
      Shepherd = None, Added = 1, Updated = 1, Deleted = 1,
      TxLog = [(CallDelete (person ''1'' 1 0 10 20), None),
               (CallInsert (person ''4'' 0 5 13 24), None),
               (CallUpdate (person ''3'' 1 0 12 23), None)]\<rparr>"

definition stale_start :: "(int, string \<rightharpoonup> int Model) Collection" where
  "stale_start = collection_of stored_sample (table_of [person ''2'' 1 0 11 21, person ''3'' 1 0 12 22]) None"

definition stale_end :: "(int, string \<rightharpoonup> int Model) Collection" where
  "stale_end =
     \<lparr>Stored = [], Tx = table_of [person ''2'' 1 0 11 21, person ''3'' 1 0 12 22],
      Shepherd = None, Added = 0, Updated = 0, Deleted = 0,
      TxLog = [(CallDelete (person ''1'' 1 0 10 20), Some (Error ''not found''))]\<rparr>"

definition clash_start :: "(int, string \<rightharpoonup> int Model) Collection" where
  "clash_start =
     collection_of stored_sample
       (table_of [person ''1'' 1 0 10 20, person ''2'' 1 0 11 21, person ''3'' 1 0 12 22, person ''4'' 9 9 9 9]) None"

definition clash_end :: "(int, string \<rightharpoonup> int Model) Collection" where
  "clash_end =
     \<lparr>Stored = [], Tx = table_of [person ''2'' 1 0 11 21, person ''3'' 1 0 12 22, person ''4'' 9 9 9 9],
      Shepherd = None, Added = 0, Updated = 0, Deleted = 1,
      TxLog = [(CallDelete (person ''1'' 1 0 10 20), None),
               (CallInsert (person ''4'' 0 5 13 24), Some (Error ''duplicate key''))]\<rparr>"

text \<open>
  Collections before and after one phase on the disposition map of these models: the add
  phase and the update phase on the table that holds the stored models, and the delete
  phase, with no model desired, on a table that has lost the row of model 2.
\<close>

definition phase_start :: "(int, string \<rightharpoonup> int Model) Collection" where
  "phase_start = collection_of [] (table_of stored_sample) None"

definition add_end :: "(int, string \<rightharpoonup> int Model) Collection" where
  "add_end =
     \<lparr>Stored = [], Tx = table_of [person ''1'' 1 0 10 20, person ''2'' 1 0 11 21, person ''3'' 1 0 12 22,
                      person ''4'' 0 5 13 24],
      Shepherd = None, Added = 1, Updated = 0, Deleted = 0,
      TxLog = [(CallInsert (person ''4'' 0 5 13 24), None)]\<rparr>"

definition update_end :: "(int, string \<rightharpoonup> int Model) Collection" where
  "update_end =
     \<lparr>Stored = [], Tx = table_of [person ''1'' 1 0 10 20, person ''2'' 1 0 11 21, person ''3'' 1 0 12 23],
      Shepherd = None, Added = 0, Updated = 1, Deleted = 0,
      TxLog = [(CallUpdate (person ''3'' 1 0 12 23), None)]\<rparr>"

definition delete_start :: "(int, string \<rightharpoonup> int Model) Collection" where
  "delete_start = collection_of [] (table_of [person ''1'' 1 0 10 20, person ''3'' 1 0 12 22]) None"

definition delete_end :: "(int, string \<rightharpoonup> int Model) Collection" where
  "delete_end =
     \<lparr>Stored = [], Tx = table_of [person ''3'' 1 0 12 22],
      Shepherd = None, Added = 0, Updated = 0, Deleted = 1,
      TxLog = [(CallDelete (person ''1'' 1 0 10 20), None),
               (CallDelete (person ''2'' 1 0 11 21), Some (Error ''not found''))]\<rparr>"

subsection \<open>Shepherds that settle\<close>

text \<open>
  A shepherd settles the stored models \<open>ms\<close> with the desired models \<open>ds\<close> when it deems
  every desired model equal to itself and, for a stored model \<open>s\<close> and a desired model \<open>d\<close>
  with the same key, either \<^verbatim>\<open>Equals(d, s)\<close> holds, or it does not and
  \<^verbatim>\<open>Update(s, d)\<close> returns a model with the key of \<open>s\<close> for which \<^verbatim>\<open>Equals(d, _)\<close> holds.
  No call panics.
\<close>

definition settles :: "'v Shepherd \<Rightarrow> 'v Model list \<Rightarrow> 'v Model list \<Rightarrow> bool" where
  "settles sh ms ds \<longleftrightarrow>
     (\<forall>d \<in> set ds. Shepherd_Equals sh d d = Inr True) \<and>
     (\<forall>s \<in> set ms. \<forall>d \<in> set ds. Pk s = Pk d \<longrightarrow>
        Shepherd_Equals sh d s = Inr True \<or>
        (Shepherd_Equals sh d s = Inr False \<and>
         (\<exists>s'. Shepherd_Update sh s d = Inr s' \<and> Pk s' = Pk s \<and>
               Shepherd_Equals sh d s' = Inr True)))"

text \<open>
  The table has converged to the desired models \<open>ds\<close>: it has a row for exactly the keys
  of \<open>ds\<close>, and the shepherd deems the model that \<open>ds\<close> yields last under a key equal to
  the row of that key.
\<close>

definition converged :: "'v Shepherd \<Rightarrow> 'v Model list \<Rightarrow> (string \<rightharpoonup> 'v Model) \<Rightarrow> bool" where
  "converged sh ds table \<longleftrightarrow>
     (\<forall>k. case last_with_pk k ds of
             None \<Rightarrow> table k = None
           | Some d \<Rightarrow> (\<exists>x. table k = Some x \<and> Shepherd_Equals sh d x = Inr True))"

section \<open>The default shepherd: equality and merge\<close>

lemma ignored_iff_rule: "ignored f \<longleftrightarrow> exclusion_rule f"
  by (simp add: ignored_def exclusion_rule_def split: option.split)

lemma ignored_Value_update [simp]: "ignored (f\<lparr>Value := v\<rparr>) = ignored f"
  by (simp add: ignored_def)

lemma ignored_field_kind: "field_kind f = field_kind g \<Longrightarrow> ignored f = ignored g"
  by (simp add: ignored_def field_kind_def)

lemma same_type_length: "same_type mA mB \<Longrightarrow> length (fieldList mA) = length (fieldList mB)"
  unfolding same_type_def by (rule map_eq_imp_length_eq)

lemma same_type_kind:
  "same_type mA mB \<Longrightarrow> i < length (fieldList mA) \<Longrightarrow>
   field_kind (fieldList mA ! i) = field_kind (fieldList mB ! i)"
proof -
  assume st: "same_type mA mB" and i: "i < length (fieldList mA)"
  from same_type_length [OF st] i have "i < length (fieldList mB)" by simp
  with i have "map field_kind (fieldList mA) ! i = field_kind (fieldList mA ! i)"
    and "map field_kind (fieldList mB) ! i = field_kind (fieldList mB ! i)"
    by simp_all
  with st show ?thesis by (simp add: same_type_def)
qed

lemma ex_from_split:
  "(\<exists>j. i \<le> j \<and> P j) \<longleftrightarrow> P i \<or> (\<exists>j. i + 1 \<le> j \<and> P j)" for i :: nat
proof
  assume "\<exists>j. i \<le> j \<and> P j"
  then obtain j where j: "i \<le> j" "P j" by blast
  show "P i \<or> (\<exists>j. i + 1 \<le> j \<and> P j)"
  proof (cases "j = i")
    case True with j show ?thesis by simp
  next
    case False with j have "i + 1 \<le> j" by simp
    with j show ?thesis by blast
  qed
next
  assume "P i \<or> (\<exists>j. i + 1 \<le> j \<and> P j)"
  then show "\<exists>j. i \<le> j \<and> P j"
  proof
    assume "P i" then show ?thesis by blast
  next
    assume "\<exists>j. i + 1 \<le> j \<and> P j"
    then obtain j where "i + 1 \<le> j" "P j" by blast
    then have "i \<le> j \<and> P j" by simp
    then show ?thesis by blast
  qed
qed

text \<open>
  What the loop of \<^verbatim>\<open>Equals\<close> returns from index \<open>i\<close> on: \<open>False\<close> if a mismatch lies
  ahead; otherwise \<open>True\<close> if list A ends before list B does, and the panic of
  \<^verbatim>\<open>fieldsB[i]\<close> if list B ends first.
\<close>

lemma Equals_loop_char:
  "Equals_loop rf fieldsA fieldsB i =
     (if \<exists>j. i \<le> j \<and> mismatch rf fieldsA fieldsB j
      then Inr False
      else if length fieldsA \<le> max i (length fieldsB) then Inr True
      else Inl (IndexOutOfRange (max i (length fieldsB)) (length fieldsB)))"
proof (induction rf fieldsA fieldsB i rule: Equals_loop.induct)
  case (1 rf fieldsA fieldsB i)
  note split = ex_from_split [of i "mismatch rf fieldsA fieldsB"]
  show ?case
  proof (cases "i < length fieldsA \<and> i < length fieldsB")
    case False
    then have nm: "\<not> (\<exists>j. i \<le> j \<and> mismatch rf fieldsA fieldsB j)"
      by (auto simp: mismatch_def)
    show ?thesis
      unfolding if_not_P [OF nm] using False
      by (subst Equals_loop.simps) (auto simp: max_def)
  next
    case True
    then have iA: "i < length fieldsA" and iB: "i < length fieldsB" by simp_all
    have mx: "max i (length fieldsB) = length fieldsB"
      "max (i + 1) (length fieldsB) = length fieldsB"
      using iB by (simp_all add: max_def)
    show ?thesis
    proof (cases "ignored (fieldsA ! i)")
      case ign: True
      have step: "Equals_loop rf fieldsA fieldsB i = Equals_loop rf fieldsA fieldsB (i + 1)"
        using iA iB ign by (subst Equals_loop.simps) simp
      have nmi: "\<not> mismatch rf fieldsA fieldsB i" using ign by (simp add: mismatch_def)
      show ?thesis
        unfolding step "1.IH"(1)[OF iA iB ign] split mx using nmi by simp
    next
      case nign: False
      show ?thesis
      proof (cases "DeepEqual rf (Value (fieldsA ! i)) (Value (fieldsB ! i))")
        case False
        have "Equals_loop rf fieldsA fieldsB i = Inr False"
          using iA iB nign False by (subst Equals_loop.simps) simp
        moreover have "mismatch rf fieldsA fieldsB i"
          using iA iB nign False by (simp add: mismatch_def)
        ultimately show ?thesis unfolding split by simp
      next
        case eq: True
        have neq: "\<not> \<not> DeepEqual rf (Value (fieldsA ! i)) (Value (fieldsB ! i))"
          using eq by simp
        have step: "Equals_loop rf fieldsA fieldsB i = Equals_loop rf fieldsA fieldsB (i + 1)"
          using iA iB nign eq by (subst Equals_loop.simps) simp
        have nmi: "\<not> mismatch rf fieldsA fieldsB i" using eq by (simp add: mismatch_def)
        show ?thesis
          unfolding step "1.IH"(2)[OF iA iB nign neq] split mx using nmi by simp
      qed
    qed
  qed
qed

lemma DefaultShepherd_Equals_char:
  "DefaultShepherd_Equals rf mA mB =
     (if \<exists>j. mismatch rf (fieldList mA) (fieldList mB) j then Inr False
      else if length (fieldList mA) \<le> length (fieldList mB) then Inr True
      else Inl (IndexOutOfRange (length (fieldList mB)) (length (fieldList mB))))"
  by (simp add: DefaultShepherd_Equals_def Table_Fields_def Equals_loop_char)

text \<open>
  Writing a value into a field of list A changes neither which indices block the merge nor
  the panic they end it with.
\<close>

lemma blocked_Value_update:
  "blocked rf (fieldsA[i := (fieldsA ! i)\<lparr>Value := v\<rparr>]) fieldsB j = blocked rf fieldsA fieldsB j"
  by (cases "i = j") (auto simp: blocked_def)

lemma block_panic_Value_update:
  "j < length fieldsA \<Longrightarrow>
   block_panic (fieldsA[i := (fieldsA ! i)\<lparr>Value := v\<rparr>]) fieldsB j = block_panic fieldsA fieldsB j"
  by (cases "i = j") (auto simp: block_panic_def)

text \<open>
  What the loop of \<^verbatim>\<open>Update\<close> returns from index \<open>i\<close> on: the merged fields when no index
  ahead blocks the merge, and otherwise the panic of the first index that does.
\<close>

lemma Update_loop_char:
  "\<forall>j. i \<le> j \<longrightarrow> \<not> blocked rf fieldsA fieldsB j \<Longrightarrow>
   \<exists>fs. Update_loop rf fieldsA fieldsB i = Inr fs \<and> length fs = length fieldsA \<and>
        (\<forall>j < length fieldsA. fs ! j = merged_field fieldsA fieldsB i j)"
proof (induction rf fieldsA fieldsB i rule: Update_loop.induct)
  case (1 rf fieldsA fieldsB i)
  show ?case
  proof (cases "i < length fieldsA")
    case False
    then have "Update_loop rf fieldsA fieldsB i = Inr fieldsA"
      by (subst Update_loop.simps) simp
    then show ?thesis using False by (simp add: merged_field_def)
  next
    case iA: True
    from "1.prems" have nb: "\<not> blocked rf fieldsA fieldsB i" by simp
    with iA have iB: "i < length fieldsB" by (simp add: blocked_def)
    have ahead: "\<forall>j. i + 1 \<le> j \<longrightarrow> \<not> blocked rf fieldsA fieldsB j"
      using "1.prems" by simp
    show ?thesis
    proof (cases "ignored (fieldsA ! i)")
      case ign: True
      have step: "Update_loop rf fieldsA fieldsB i = Update_loop rf fieldsA fieldsB (i + 1)"
        using iA iB ign by (subst Update_loop.simps) simp
      from "1.IH"(1)[OF iA iB ign ahead] obtain fs where
        fs: "Update_loop rf fieldsA fieldsB (i + 1) = Inr fs" "length fs = length fieldsA"
          "\<forall>j < length fieldsA. fs ! j = merged_field fieldsA fieldsB (i + 1) j"
        by blast
      have "merged_field fieldsA fieldsB (i + 1) j = merged_field fieldsA fieldsB i j" for j
        using ign by (cases "j = i") (auto simp: merged_field_def)
      with fs show ?thesis unfolding step by simp
    next
      case nign: False
      let ?A = "fieldsA[i := (fieldsA ! i)\<lparr>Value := Value (fieldsB ! i)\<rparr>]"
      from nb iA iB nign
      have asg: "\<not> \<not> assignable rf (GoType (fieldsB ! i)) (GoType (fieldsA ! i))"
        by (simp add: blocked_def)
      have step: "Update_loop rf fieldsA fieldsB i = Update_loop rf ?A fieldsB (i + 1)"
        using iA iB nign asg by (subst Update_loop.simps) simp
      have ahead': "\<forall>j. i + 1 \<le> j \<longrightarrow> \<not> blocked rf ?A fieldsB j"
        using ahead by (simp add: blocked_Value_update)
      from "1.IH"(2)[OF iA iB nign asg ahead'] obtain fs where
        fs: "Update_loop rf ?A fieldsB (i + 1) = Inr fs" "length fs = length ?A"
          "\<forall>j < length ?A. fs ! j = merged_field ?A fieldsB (i + 1) j"
        by blast
      have "merged_field ?A fieldsB (i + 1) j = merged_field fieldsA fieldsB i j"
        if "j < length fieldsA" for j
        using nign that by (cases "j = i") (auto simp: merged_field_def)
      with fs show ?thesis unfolding step by simp
    qed
  qed
qed

lemma Update_loop_blocked:
  "i \<le> j \<Longrightarrow> blocked rf fieldsA fieldsB j \<Longrightarrow>
   \<forall>k. i \<le> k \<and> k < j \<longrightarrow> \<not> blocked rf fieldsA fieldsB k \<Longrightarrow>
   Update_loop rf fieldsA fieldsB i = Inl (block_panic fieldsA fieldsB j)"
proof (induction rf fieldsA fieldsB i rule: Update_loop.induct)
  case (1 rf fieldsA fieldsB i)
  from "1.prems"(2) have jA: "j < length fieldsA" by (simp add: blocked_def)
  with "1.prems"(1) have iA: "i < length fieldsA" by simp
  show ?case
  proof (cases "i = j")
    case True
    with "1.prems"(2) have b: "blocked rf fieldsA fieldsB i" by simp
    show ?thesis
    proof (cases "length fieldsB \<le> i")
      case True
      then have "Update_loop rf fieldsA fieldsB i = Inl (IndexOutOfRange i (length fieldsB))"
        using iA by (subst Update_loop.simps) simp
      with True \<open>i = j\<close> show ?thesis by (simp add: block_panic_def)
    next
      case False
      with b have "\<not> ignored (fieldsA ! i)"
        and "\<not> assignable rf (GoType (fieldsB ! i)) (GoType (fieldsA ! i))"
        by (simp_all add: blocked_def)
      then have "Update_loop rf fieldsA fieldsB i =
          Inl (NotAssignable (GoType (fieldsB ! i)) (GoType (fieldsA ! i)))"
        using iA False by (subst Update_loop.simps) simp
      with False \<open>i = j\<close> show ?thesis by (simp add: block_panic_def)
    qed
  next
    case False
    with "1.prems"(1) have lt: "i < j" and le: "i + 1 \<le> j" by simp_all
    with "1.prems"(3) have nb: "\<not> blocked rf fieldsA fieldsB i" by simp
    with iA have iB: "i < length fieldsB" by (simp add: blocked_def)
    have between: "\<forall>k. i + 1 \<le> k \<and> k < j \<longrightarrow> \<not> blocked rf fieldsA fieldsB k"
      using "1.prems"(3) by simp
    show ?thesis
    proof (cases "ignored (fieldsA ! i)")
      case ign: True
      have step: "Update_loop rf fieldsA fieldsB i = Update_loop rf fieldsA fieldsB (i + 1)"
        using iA iB ign by (subst Update_loop.simps) simp
      show ?thesis
        unfolding step by (rule "1.IH"(1)[OF iA iB ign le "1.prems"(2) between])
    next
      case nign: False
      let ?A = "fieldsA[i := (fieldsA ! i)\<lparr>Value := Value (fieldsB ! i)\<rparr>]"
      from nb iA iB nign
      have asg: "\<not> \<not> assignable rf (GoType (fieldsB ! i)) (GoType (fieldsA ! i))"
        by (simp add: blocked_def)
      have step: "Update_loop rf fieldsA fieldsB i = Update_loop rf ?A fieldsB (i + 1)"
        using iA iB nign asg by (subst Update_loop.simps) simp
      have b': "blocked rf ?A fieldsB j"
        using "1.prems"(2) by (simp add: blocked_Value_update)
      have between': "\<forall>k. i + 1 \<le> k \<and> k < j \<longrightarrow> \<not> blocked rf ?A fieldsB k"
        using between by (simp add: blocked_Value_update)
      have "Update_loop rf ?A fieldsB (i + 1) = Inl (block_panic ?A fieldsB j)"
        by (rule "1.IH"(2)[OF iA iB nign asg le b' between'])
      with jA show ?thesis unfolding step by (simp add: block_panic_Value_update)
    qed
  qed
qed

lemma DefaultShepherd_Update_char:
  assumes "\<forall>j. \<not> blocked rf (fieldList mA) (fieldList mB) j"
  shows "\<exists>mA'. DefaultShepherd_Update rf mA mB = Inr mA' \<and>
           Pk mA' = Pk mA \<and> fieldsErr mA' = fieldsErr mA \<and>
           length (fieldList mA') = length (fieldList mA) \<and>
           (\<forall>j < length (fieldList mA).
              fieldList mA' ! j = merged_field (fieldList mA) (fieldList mB) 0 j)"
proof -
  from assms have "\<forall>j. 0 \<le> j \<longrightarrow> \<not> blocked rf (fieldList mA) (fieldList mB) j"
    by simp
  from Update_loop_char [OF this] obtain fs where
    fs: "Update_loop rf (fieldList mA) (fieldList mB) 0 = Inr fs"
      "length fs = length (fieldList mA)"
      "\<forall>j < length (fieldList mA). fs ! j = merged_field (fieldList mA) (fieldList mB) 0 j"
    by blast
  then have "DefaultShepherd_Update rf mA mB = Inr (mA\<lparr>fieldList := fs\<rparr>)"
    by (simp add: DefaultShepherd_Update_def Table_Fields_def)
  with fs show ?thesis by simp
qed

lemma DefaultShepherd_Update_blocked:
  assumes "blocked rf (fieldList mA) (fieldList mB) j"
    and "\<forall>k < j. \<not> blocked rf (fieldList mA) (fieldList mB) k"
  shows "DefaultShepherd_Update rf mA mB = Inl (block_panic (fieldList mA) (fieldList mB) j)"
proof -
  from assms(2) have "\<forall>k. 0 \<le> k \<and> k < j \<longrightarrow> \<not> blocked rf (fieldList mA) (fieldList mB) k"
    by simp
  from Update_loop_blocked [OF _ assms(1) this]
  have "Update_loop rf (fieldList mA) (fieldList mB) 0 =
      Inl (block_panic (fieldList mA) (fieldList mB) j)"
    by simp
  then show ?thesis by (simp add: DefaultShepherd_Update_def Table_Fields_def)
qed

text \<open>Models of the same type have no index that blocks the merge.\<close>

lemma same_type_not_blocked:
  assumes "same_type mA mB"
  shows "\<not> blocked rf (fieldList mA) (fieldList mB) j"
proof
  assume b: "blocked rf (fieldList mA) (fieldList mB) j"
  then have j: "j < length (fieldList mA)" by (simp add: blocked_def)
  from same_type_kind [OF assms j]
  have "GoType (fieldList mB ! j) = GoType (fieldList mA ! j)"
    by (simp add: field_kind_def)
  with b j same_type_length [OF assms] show False
    by (simp add: blocked_def assignable_def)
qed

lemmas sample_defs = person_def person_v2_def opaque_def key_field_def serial_field_def
  untracked_field_def plain_field_def
text \<open>
  Claim C4. In \<^verbatim>\<open>Equals\<close> and in \<^verbatim>\<open>Update\<close> alike a field is ignored iff it is the
  primary key, or auto-incremented, or tagged \<^verbatim>\<open>eq:"-"\<close>: the test \<open>ignored\<close> of the code
  is the exclusion rule. Both read the field at the same index of the second model, so in
  what follows the second model has at least as many fields as the first.
  \<^item> \<^verbatim>\<open>Equals\<close> answers whether \<^verbatim>\<open>reflect.DeepEqual\<close> holds of every field of its first
    model that the rule does not exclude and the field at the same index of the second.
  \<^item> \<^verbatim>\<open>Update\<close> returns iff for every field of the stored model that the rule does not
    exclude the type of the desired model's field is assignable to it; the type of an
    excluded field is of no account. It then leaves the excluded fields as they are and
    gives every other field the value of the desired one. Otherwise it panics in
    \<^verbatim>\<open>Value.Set\<close>.
\<close>

theorem exclusion_rule_in_Equals_and_Update:
  "(\<forall>f :: 'v Field. ignored f = exclusion_rule f) \<and>
   (length (fieldList mA) \<le> length (fieldList (mB :: 'v Model)) \<longrightarrow>
      DefaultShepherd_Equals rf mA mB =
        Inr (\<forall>i < length (fieldList mA).
               \<not> exclusion_rule (fieldList mA ! i) \<longrightarrow>
               DeepEqual rf (Value (fieldList mA ! i)) (Value (fieldList mB ! i)))) \<and>
   (length (fieldList mA) \<le> length (fieldList mB) \<and>
    (\<forall>i < length (fieldList mA).
       \<not> exclusion_rule (fieldList mA ! i) \<longrightarrow>
       assignable rf (GoType (fieldList mB ! i)) (GoType (fieldList mA ! i))) \<longrightarrow>
      (\<exists>mA'. DefaultShepherd_Update rf mA mB = Inr mA' \<and>
         length (fieldList mA') = length (fieldList mA) \<and>
         (\<forall>i < length (fieldList mA).
            fieldList mA' ! i =
              (if exclusion_rule (fieldList mA ! i) then fieldList mA ! i
               else (fieldList mA ! i)\<lparr>Value := Value (fieldList mB ! i)\<rparr>)))) \<and>
   (length (fieldList mA) \<le> length (fieldList mB) \<and>
    \<not> (\<forall>i < length (fieldList mA).
         \<not> exclusion_rule (fieldList mA ! i) \<longrightarrow>
         assignable rf (GoType (fieldList mB ! i)) (GoType (fieldList mA ! i))) \<longrightarrow>
      (\<exists>V T. DefaultShepherd_Update rf mA mB = Inl (NotAssignable V T)))"
proof (intro conjI impI)
  show "\<forall>f :: 'v Field. ignored f = exclusion_rule f"
    by (simp add: ignored_iff_rule)
next
  assume len: "length (fieldList mA) \<le> length (fieldList mB)"
  have "(\<exists>j. mismatch rf (fieldList mA) (fieldList mB) j) \<longleftrightarrow>
        \<not> (\<forall>i < length (fieldList mA).
              \<not> exclusion_rule (fieldList mA ! i) \<longrightarrow>
              DeepEqual rf (Value (fieldList mA ! i)) (Value (fieldList mB ! i)))"
    using len by (auto simp: mismatch_def ignored_iff_rule)
  then show "DefaultShepherd_Equals rf mA mB =
           Inr (\<forall>i < length (fieldList mA).
                  \<not> exclusion_rule (fieldList mA ! i) \<longrightarrow>
                  DeepEqual rf (Value (fieldList mA ! i)) (Value (fieldList mB ! i)))"
    using len unfolding DefaultShepherd_Equals_char by auto
next
  assume h: "length (fieldList mA) \<le> length (fieldList mB) \<and>
    (\<forall>i < length (fieldList mA).
       \<not> exclusion_rule (fieldList mA ! i) \<longrightarrow>
       assignable rf (GoType (fieldList mB ! i)) (GoType (fieldList mA ! i)))"
  then have nb: "\<forall>j. \<not> blocked rf (fieldList mA) (fieldList mB) j"
    by (auto simp: blocked_def ignored_iff_rule)
  from DefaultShepherd_Update_char [OF nb] obtain mA' where
    u: "DefaultShepherd_Update rf mA mB = Inr mA'"
      "length (fieldList mA') = length (fieldList mA)"
      "\<forall>j < length (fieldList mA).
         fieldList mA' ! j = merged_field (fieldList mA) (fieldList mB) 0 j"
    by blast
  then show "\<exists>mA'. DefaultShepherd_Update rf mA mB = Inr mA' \<and>
            length (fieldList mA') = length (fieldList mA) \<and>
            (\<forall>i < length (fieldList mA).
               fieldList mA' ! i =
                 (if exclusion_rule (fieldList mA ! i) then fieldList mA ! i
                  else (fieldList mA ! i)\<lparr>Value := Value (fieldList mB ! i)\<rparr>))"
    by (simp add: merged_field_def ignored_iff_rule)
next
  assume h: "length (fieldList mA) \<le> length (fieldList mB) \<and>
    \<not> (\<forall>i < length (fieldList mA).
         \<not> exclusion_rule (fieldList mA ! i) \<longrightarrow>
         assignable rf (GoType (fieldList mB ! i)) (GoType (fieldList mA ! i)))"
  then have len: "length (fieldList mA) \<le> length (fieldList mB)" by simp
  from h have "\<exists>j. blocked rf (fieldList mA) (fieldList mB) j"
    by (auto simp: blocked_def ignored_iff_rule)
  then obtain j where j: "blocked rf (fieldList mA) (fieldList mB) j"
    and first: "\<forall>k < j. \<not> blocked rf (fieldList mA) (fieldList mB) k"
    using exists_least_iff [of "blocked rf (fieldList mA) (fieldList mB)"] by blast
  from j len have "\<not> length (fieldList mB) \<le> j" by (simp add: blocked_def)
  with DefaultShepherd_Update_blocked [OF j first]
  have "DefaultShepherd_Update rf mA mB =
      Inl (NotAssignable (GoType (fieldList mB ! j)) (GoType (fieldList mA ! j)))"
    by (simp add: block_panic_def)
  then show "\<exists>V T. DefaultShepherd_Update rf mA mB = Inl (NotAssignable V T)"
    by blast
qed

theorem exclusion_rule_in_Equals_and_Update_witness:
  "length (fieldList (person ''1'' 7 5 10 20)) \<le> length (fieldList (person ''1'' 8 6 11 20)) \<and>
   DefaultShepherd_Equals reflect_int (person ''1'' 7 5 10 20) (person ''1'' 8 6 11 20) =
     Inr False \<and>
   (\<exists>mA'. DefaultShepherd_Update reflect_int (person ''1'' 7 5 10 20) (person ''1'' 8 6 11 20) =
            Inr mA' \<and>
      fieldList mA' = fieldList (person ''1'' 7 5 11 20)) \<and>
   length (fieldList (name_int ''1'' 3)) \<le> length (fieldList (name_str ''1'' ''x'')) \<and>
   \<not> assignable reflect_go (GoType (fieldList (name_str ''1'' ''x'') ! 1))
       (GoType (fieldList (name_int ''1'' 3) ! 1)) \<and>
   (\<exists>V T. DefaultShepherd_Update reflect_go (name_int ''1'' 3) (name_str ''1'' ''x'') =
      Inl (NotAssignable V T))"
proof -
  let ?A = "person ''1'' 7 5 10 20" and ?B = "person ''1'' 8 6 11 20"
  have h: "length (fieldList ?A) \<le> length (fieldList ?B)"
    by (simp add: person_def)
  note t = exclusion_rule_in_Equals_and_Update [where rf = reflect_int and mA = ?A and mB = ?B]
  have len: "length (fieldList ?A) = Suc (Suc (Suc (Suc (Suc 0))))"
    by (simp add: person_def)
  from t [THEN conjunct2, THEN conjunct1, THEN mp, OF h]
  have e0: "DefaultShepherd_Equals reflect_int ?A ?B =
      Inr (\<forall>i < length (fieldList ?A).
             \<not> exclusion_rule (fieldList ?A ! i) \<longrightarrow>
             DeepEqual reflect_int (Value (fieldList ?A ! i)) (Value (fieldList ?B ! i)))" .
  have "\<not> (\<forall>i < length (fieldList ?A).
             \<not> exclusion_rule (fieldList ?A ! i) \<longrightarrow>
             DeepEqual reflect_int (Value (fieldList ?A ! i)) (Value (fieldList ?B ! i)))"
    unfolding len All_less_Suc
    by (simp add: sample_defs exclusion_rule_def Lookup_def reflect_int_def)
  with e0 have e: "DefaultShepherd_Equals reflect_int ?A ?B = Inr False"
    by simp
  have asg: "\<forall>i < length (fieldList ?A).
       \<not> exclusion_rule (fieldList ?A ! i) \<longrightarrow>
       assignable reflect_int (GoType (fieldList ?B ! i)) (GoType (fieldList ?A ! i))"
    unfolding len All_less_Suc
    by (simp add: sample_defs exclusion_rule_def Lookup_def assignable_def)
  from t [THEN conjunct2, THEN conjunct2, THEN conjunct1, THEN mp, OF conjI [OF h asg]]
  obtain mA' where
    u: "DefaultShepherd_Update reflect_int ?A ?B = Inr mA'"
      "length (fieldList mA') = length (fieldList ?A)"
      "\<forall>i < length (fieldList ?A). fieldList mA' ! i =
         (if exclusion_rule (fieldList ?A ! i) then fieldList ?A ! i
          else (fieldList ?A ! i)\<lparr>Value := Value (fieldList ?B ! i)\<rparr>)"
    by blast
  have "fieldList mA' = fieldList (person ''1'' 7 5 11 20)"
  proof (rule nth_equalityI)
    show "length (fieldList mA') = length (fieldList (person ''1'' 7 5 11 20))"
      using u(2) by (simp add: person_def)
  next
    fix i assume "i < length (fieldList mA')"
    then have i: "i < Suc (Suc (Suc (Suc (Suc 0))))" using u(2) len by simp
    then have "i < length (fieldList ?A)" using len by simp
    with u(3) have "fieldList mA' ! i =
         (if exclusion_rule (fieldList ?A ! i) then fieldList ?A ! i
          else (fieldList ?A ! i)\<lparr>Value := Value (fieldList ?B ! i)\<rparr>)" by blast
    with i show "fieldList mA' ! i = fieldList (person ''1'' 7 5 11 20) ! i"
      by (auto simp: less_Suc_eq sample_defs exclusion_rule_def Lookup_def)
  qed
  with u(1) have up: "\<exists>mA'. DefaultShepherd_Update reflect_int ?A ?B = Inr mA' \<and>
      fieldList mA' = fieldList (person ''1'' 7 5 11 20)"
    by blast
  let ?C = "name_int ''1'' 3" and ?D = "name_str ''1'' ''x''"
  have h2: "length (fieldList ?C) \<le> length (fieldList ?D)"
    by (simp add: name_int_def name_str_def)
  have na: "\<not> assignable reflect_go (GoType (fieldList ?D ! 1)) (GoType (fieldList ?C ! 1))"
    by (simp add: name_int_def name_str_def sample_defs assignable_def reflect_go_def)
  have len2: "length (fieldList ?C) = Suc (Suc 0)"
    by (simp add: name_int_def)
  have "\<not> (\<forall>i < length (fieldList ?C).
       \<not> exclusion_rule (fieldList ?C ! i) \<longrightarrow>
       assignable reflect_go (GoType (fieldList ?D ! i)) (GoType (fieldList ?C ! i)))"
    unfolding len2 All_less_Suc
    by (simp add: name_int_def name_str_def sample_defs exclusion_rule_def Lookup_def
        assignable_def reflect_go_def)
  with h2 exclusion_rule_in_Equals_and_Update [where rf = reflect_go and mA = ?C and mB = ?D]
  have p: "\<exists>V T. DefaultShepherd_Update reflect_go ?C ?D = Inl (NotAssignable V T)"
    by blast
  from h e up h2 na p show ?thesis by (intro conjI)
qed

text \<open>
  Claim C10. The default shepherd drops the error of field introspection in \<^verbatim>\<open>Equals\<close>
  and in \<^verbatim>\<open>Update\<close>: whatever error comes with it, when introspection yields no
  field for the first model, \<^verbatim>\<open>Equals\<close> returns true and \<^verbatim>\<open>Update\<close> leaves the model
  as it is; neither has a way to report the error. In the update phase the first
  model of \<^verbatim>\<open>Equals\<close> is the desired one, so such an entry is skipped.
\<close>

theorem introspection_error_discarded:
  assumes "fst (Table_Fields mA) = []"
  shows "DefaultShepherd_Equals rf mA mB = Inr True \<and>
         DefaultShepherd_Update rf mA mB = Inr mA \<and>
         (Shepherd r = None \<and> dispositions k = Some \<lparr>stored = Some mB, desired = Some mA\<rparr> \<longrightarrow>
          Collection_update rf tx (k # ks) dispositions r = Collection_update rf tx ks dispositions r)"
proof -
  from assms have nil: "fieldList mA = []" by (simp add: Table_Fields_def)
  have e: "DefaultShepherd_Equals rf mA mB = Inr True"
    by (simp add: DefaultShepherd_Equals_def Table_Fields_def nil Equals_loop.simps)
  have "DefaultShepherd_Update rf mA mB = Inr (mA\<lparr>fieldList := []\<rparr>)"
    by (simp add: DefaultShepherd_Update_def Table_Fields_def nil Update_loop.simps)
  also have "mA\<lparr>fieldList := []\<rparr> = mA" using nil by simp
  finally have u: "DefaultShepherd_Update rf mA mB = Inr mA" .
  from e have "Shepherd r = None \<and> dispositions k = Some \<lparr>stored = Some mB, desired = Some mA\<rparr> \<longrightarrow>
          Collection_update rf tx (k # ks) dispositions r = Collection_update rf tx ks dispositions r"
    by (simp add: Collection_update_def DefaultShepherd_def)
  with e u show ?thesis by blast
qed

theorem introspection_error_discarded_witness:
  "fst (Table_Fields (opaque ''1'')) = [] \<and>
   snd (Table_Fields (opaque ''1'')) = Some (Error ''must be a struct'') \<and>
   DefaultShepherd_Equals reflect_int (opaque ''1'') (person ''1'' 7 5 10 20) = Inr True \<and>
   DefaultShepherd_Update reflect_int (opaque ''1'') (person ''1'' 7 5 10 20) = Inr (opaque ''1'') \<and>
   Collection_update reflect_int table_Tx [''1'']
     [''1'' \<mapsto> \<lparr>stored = Some (person ''1'' 7 5 10 20), desired = Some (opaque ''1'')\<rparr>]
     (collection_of [] (table_of [person ''1'' 7 5 10 20]) None) =
   (Return None, collection_of [] (table_of [person ''1'' 7 5 10 20]) None)"
proof -
  let ?mp = "[''1'' \<mapsto> \<lparr>stored = Some (person ''1'' 7 5 10 20), desired = Some (opaque ''1'')\<rparr>]"
  let ?r = "collection_of ([] :: int Model list) (table_of [person ''1'' 7 5 10 20]) None"
  have h: "fst (Table_Fields (opaque ''1'')) = []"
    by (simp add: Table_Fields_def opaque_def)
  have e: "snd (Table_Fields (opaque ''1'')) = Some (Error ''must be a struct'')"
    by (simp add: Table_Fields_def opaque_def)
  note t = introspection_error_discarded [OF h, of reflect_int "person ''1'' 7 5 10 20" ?r ?mp
      "''1''" table_Tx "[]"]
  have k: "Shepherd ?r = None \<and>
      ?mp ''1'' = Some \<lparr>stored = Some (person ''1'' 7 5 10 20), desired = Some (opaque ''1'')\<rparr>"
    by (simp add: collection_of_def)
  from t [THEN conjunct2, THEN conjunct2, THEN mp, OF k]
  have "Collection_update reflect_int table_Tx [''1''] ?mp ?r = (Return None, ?r)"
    by (simp add: Collection_update_def)
  with h e t [THEN conjunct1] t [THEN conjunct2, THEN conjunct1] show ?thesis
    by (intro conjI)
qed

text \<open>
  Claim C3. For a stored and a desired model of the same type (the same names, flags, tags
  and Go types at every position), \<^verbatim>\<open>Update\<close> of the default shepherd returns, whatever
  \<^verbatim>\<open>reflect\<close> admits beyond assigning a type to itself; afterwards every field of the
  stored model that is not ignored has the value of the desired model's field at the same
  index, and every ignored field (primary key, auto-incremented or tagged \<^verbatim>\<open>eq:"-"\<close>) is
  as it was before. The stored model keeps its key and its type.
\<close>

theorem Update_merge_fidelity:
  assumes "same_type st de"
  shows "\<exists>st'. DefaultShepherd_Update rf st de = Inr st' \<and> Pk st' = Pk st \<and> same_type st' st \<and>
           (\<forall>i < length (fieldList st).
              ignored (fieldList de ! i) = ignored (fieldList st ! i) \<and>
              (\<not> ignored (fieldList st ! i) \<longrightarrow>
                 Value (fieldList st' ! i) = Value (fieldList de ! i)) \<and>
              (ignored (fieldList st ! i) \<longrightarrow> fieldList st' ! i = fieldList st ! i))"
proof -
  have nb: "\<forall>j. \<not> blocked rf (fieldList st) (fieldList de) j"
    using same_type_not_blocked [OF assms] by blast
  from DefaultShepherd_Update_char [OF nb] obtain st' where
    u: "DefaultShepherd_Update rf st de = Inr st'" "Pk st' = Pk st"
      "length (fieldList st') = length (fieldList st)"
      "\<forall>j < length (fieldList st).
         fieldList st' ! j = merged_field (fieldList st) (fieldList de) 0 j"
    by blast
  have kind: "field_kind (merged_field (fieldList st) (fieldList de) 0 j) =
      field_kind (fieldList st ! j)" for j
    by (simp add: merged_field_def field_kind_def)
  have "map field_kind (fieldList st') = map field_kind (fieldList st)"
  proof (rule nth_equalityI)
    show "length (map field_kind (fieldList st')) = length (map field_kind (fieldList st))"
      using u(3) by simp
  next
    fix i assume "i < length (map field_kind (fieldList st'))"
    then have i: "i < length (fieldList st)" using u(3) by simp
    with u(4) have "fieldList st' ! i = merged_field (fieldList st) (fieldList de) 0 i"
      by blast
    with i u(3) kind
    show "map field_kind (fieldList st') ! i = map field_kind (fieldList st) ! i"
      by simp
  qed
  then have ty: "same_type st' st" by (simp add: same_type_def)
  have per_field: "ignored (fieldList de ! i) = ignored (fieldList st ! i) \<and>
        (\<not> ignored (fieldList st ! i) \<longrightarrow>
           Value (fieldList st' ! i) = Value (fieldList de ! i)) \<and>
        (ignored (fieldList st ! i) \<longrightarrow> fieldList st' ! i = fieldList st ! i)"
    if i: "i < length (fieldList st)" for i
  proof -
    have "ignored (fieldList st ! i) = ignored (fieldList de ! i)"
      by (rule ignored_field_kind [OF same_type_kind [OF assms i]])
    then have "ignored (fieldList de ! i) = ignored (fieldList st ! i)"
      by simp
    moreover from u(4) i
    have "fieldList st' ! i = merged_field (fieldList st) (fieldList de) 0 i" by blast
    ultimately show ?thesis by (simp add: merged_field_def)
  qed
  show ?thesis
  proof (intro exI conjI allI impI)
    show "DefaultShepherd_Update rf st de = Inr st'" by (rule u(1))
    show "Pk st' = Pk st" by (rule u(2))
    show "same_type st' st" by (rule ty)
  next
    fix i assume "i < length (fieldList st)"
    from per_field [OF this]
    show "ignored (fieldList de ! i) = ignored (fieldList st ! i)"
      and "\<not> ignored (fieldList st ! i) \<Longrightarrow>
           Value (fieldList st' ! i) = Value (fieldList de ! i)"
      and "ignored (fieldList st ! i) \<Longrightarrow> fieldList st' ! i = fieldList st ! i"
      by simp_all
  qed
qed

theorem Update_merge_fidelity_witness:
  "same_type (person ''1'' 7 5 10 20) (person ''1'' 8 6 11 20) \<and>
   (\<exists>st'. DefaultShepherd_Update reflect_int (person ''1'' 7 5 10 20) (person ''1'' 8 6 11 20) = Inr st' \<and>
      st' = person ''1'' 7 5 11 20 \<and> Pk st' = ''1'' \<and>
      same_type st' (person ''1'' 7 5 10 20)) \<and>
   \<not> same_type (name_int ''1'' 3) (name_str ''1'' ''x'')"
proof -
  have h: "same_type (person ''1'' 7 5 10 20) (person ''1'' 8 6 11 20)"
    by (simp add: same_type_def field_kind_def sample_defs)
  have c: "DefaultShepherd_Update reflect_int (person ''1'' 7 5 10 20) (person ''1'' 8 6 11 20) =
      Inr (person ''1'' 7 5 11 20)"
    by (simp add: DefaultShepherd_Update_def Table_Fields_def sample_defs Update_loop.simps
        ignored_def Lookup_def assignable_def)
  from Update_merge_fidelity [OF h, where rf = reflect_int] c have
    "Pk (person ''1'' 7 5 11 20) = ''1'' \<and>
     same_type (person ''1'' 7 5 11 20) (person ''1'' 7 5 10 20)"
    by (auto simp: person_def)
  moreover have "\<not> same_type (name_int ''1'' 3) (name_str ''1'' ''x'')"
    by (simp add: same_type_def field_kind_def name_int_def name_str_def sample_defs)
  ultimately show ?thesis using h c by simp
qed

text \<open>
  Claim C5, as the code has it. \<^verbatim>\<open>Equals\<close> of the default shepherd returns false when,
  at an index in range of both field lists, a field of the first model that is not ignored
  holds a value that \<^verbatim>\<open>reflect.DeepEqual\<close> tells apart from the second model's. Without
  such a field it returns true when the
  second model has at least as many fields as the first, whose surplus fields are not
  compared; and when the second model has fewer fields, reading \<^verbatim>\<open>fieldsB[i]\<close> just
  past its end panics. The lengths of the two lists are never compared.
\<close>

theorem Equals_without_length_check:
  "DefaultShepherd_Equals rf mA mB =
     (if \<exists>j. j < length (fieldList mA) \<and> j < length (fieldList mB) \<and>
             \<not> ignored (fieldList mA ! j) \<and>
             \<not> DeepEqual rf (Value (fieldList mA ! j)) (Value (fieldList mB ! j))
      then Inr False
      else if length (fieldList mA) \<le> length (fieldList mB) then Inr True
      else Inl (IndexOutOfRange (length (fieldList mB)) (length (fieldList mB))))"
  using DefaultShepherd_Equals_char [of rf mA mB] by (simp add: mismatch_def)

text \<open>
  Against claim C5 as stated: two models whose field counts differ, 5 and 6. Compared one
  way round, \<^verbatim>\<open>Equals\<close> returns true though the lengths differ; the other way round it
  indexes out of range.
\<close>

theorem Equals_length_mismatch_counterexample:
  "length (fieldList (person ''1'' 7 5 10 20)) \<noteq> length (fieldList (person_v2 ''1'' 7 5 10 20 30)) \<and>
   DefaultShepherd_Equals reflect_int (person ''1'' 7 5 10 20) (person_v2 ''1'' 7 5 10 20 30) = Inr True \<and>
   DefaultShepherd_Equals reflect_int (person_v2 ''1'' 7 5 10 20 30) (person ''1'' 7 5 10 20) =
     Inl (IndexOutOfRange 5 5)"
  by (simp add: DefaultShepherd_Equals_def Table_Fields_def sample_defs Equals_loop.simps
      ignored_def Lookup_def reflect_int_def)

section \<open>A sample run\<close>

lemma Pk_person [simp]: "Pk (person k a b c d) = k"
  by (simp add: person_def)

lemma sample_dispositions:
  "Collection_dispositions (collection_of stored_sample s sh) desired_sample =
     ([''1'' \<mapsto> \<lparr>stored = Some (person ''1'' 1 0 10 20), desired = None\<rparr>,
       ''2'' \<mapsto> \<lparr>stored = Some (person ''2'' 1 0 11 21), desired = Some (person ''2'' 0 5 11 21)\<rparr>,
       ''3'' \<mapsto> \<lparr>stored = Some (person ''3'' 1 0 12 22), desired = Some (person ''3'' 0 5 12 23)\<rparr>,
       ''4'' \<mapsto> \<lparr>stored = None, desired = Some (person ''4'' 0 5 13 24)\<rparr>],
      collection_of [] s sh)"
  by (simp add: Collection_dispositions_def collection_of_def
      stored_sample_def desired_sample_def)

lemma sample_map:
  "disposition_map (collection_of stored_sample s sh) desired_sample =
     [''1'' \<mapsto> \<lparr>stored = Some (person ''1'' 1 0 10 20), desired = None\<rparr>,
      ''2'' \<mapsto> \<lparr>stored = Some (person ''2'' 1 0 11 21), desired = Some (person ''2'' 0 5 11 21)\<rparr>,
      ''3'' \<mapsto> \<lparr>stored = Some (person ''3'' 1 0 12 22), desired = Some (person ''3'' 0 5 12 23)\<rparr>,
      ''4'' \<mapsto> \<lparr>stored = None, desired = Some (person ''4'' 0 5 13 24)\<rparr>]"
  by (simp add: disposition_map_def sample_dispositions)

lemma sample_equal_2:
  "DefaultShepherd_Equals reflect_int (person ''2'' 0 5 11 21) (person ''2'' 1 0 11 21) = Inr True"
  by (simp add: DefaultShepherd_Equals_def Table_Fields_def sample_defs Equals_loop.simps
      ignored_def Lookup_def reflect_int_def)

lemma sample_equal_3:
  "DefaultShepherd_Equals reflect_int (person ''3'' 0 5 12 23) (person ''3'' 1 0 12 22) = Inr False"
  by (simp add: DefaultShepherd_Equals_def Table_Fields_def sample_defs Equals_loop.simps
      ignored_def Lookup_def reflect_int_def)

lemma sample_update_3:
  "DefaultShepherd_Update reflect_int (person ''3'' 1 0 12 22) (person ''3'' 0 5 12 23) =
     Inr (person ''3'' 1 0 12 23)"
  by (simp add: DefaultShepherd_Update_def Table_Fields_def sample_defs Update_loop.simps
      ignored_def Lookup_def assignable_def)

text \<open>
  The run of the specification's examples: stored 1, 2, 3 and desired 2, 3, 4, with model 2
  unchanged and model 3 changed. Model 1 is deleted, then model 4 inserted, then model 3
  updated, whatever the orders of the three loops; each counter ends at 1.
\<close>

lemma sample_run:
  "Collection_Reconcile reflect_int table_Tx [''1'', ''2'', ''3'', ''4''] [''4'', ''3'', ''2'', ''1'']
     [''2'', ''4'', ''1'', ''3''] desired_sample
     (collection_of stored_sample (table_of stored_sample) None) =
   (Return None,
    \<lparr>Stored = [],
     Tx = table_of [person ''2'' 1 0 11 21, person ''3'' 1 0 12 23, person ''4'' 0 5 13 24],
     Shepherd = None, Added = 1, Updated = 1, Deleted = 1,
     TxLog = [(CallDelete (person ''1'' 1 0 10 20), None),
              (CallInsert (person ''4'' 0 5 13 24), None),
              (CallUpdate (person ''3'' 1 0 12 23), None)]\<rparr>)"
  unfolding Collection_Reconcile_def sample_dispositions
  by (simp add: collection_of_def table_Tx_def table_of_def stored_sample_def
      Collection_update_def DefaultShepherd_def sample_equal_2 sample_equal_3 sample_update_3
      fun_eq_iff)

text \<open>
  The same run on a table that has lost the row of model 1: the delete fails, and nothing
  else is called.
\<close>

lemma stale_run:
  "Collection_Reconcile reflect_int table_Tx [''1'', ''2'', ''3'', ''4''] [''4'', ''3'', ''2'', ''1'']
     [''2'', ''4'', ''1'', ''3''] desired_sample
     (collection_of stored_sample (table_of [person ''2'' 1 0 11 21, person ''3'' 1 0 12 22]) None) =
   (Return (Some (Error ''not found'')),
    \<lparr>Stored = [],
     Tx = table_of [person ''2'' 1 0 11 21, person ''3'' 1 0 12 22],
     Shepherd = None, Added = 0, Updated = 0, Deleted = 0,
     TxLog = [(CallDelete (person ''1'' 1 0 10 20), Some (Error ''not found''))]\<rparr>)"
  unfolding Collection_Reconcile_def sample_dispositions
  by (simp add: collection_of_def table_Tx_def table_of_def)

text \<open>
  And on a table that already has a row under key 4, which the stored sequence does not
  list: the delete succeeds, the insert fails, the update phase is left out.
\<close>

lemma clash_run:
  "Collection_Reconcile reflect_int table_Tx [''1'', ''2'', ''3'', ''4''] [''4'', ''3'', ''2'', ''1'']
     [''2'', ''4'', ''1'', ''3''] desired_sample
     (collection_of stored_sample
        (table_of [person ''1'' 1 0 10 20, person ''2'' 1 0 11 21, person ''3'' 1 0 12 22,
                   person ''4'' 9 9 9 9]) None) =
   (Return (Some (Error ''duplicate key'')),
    \<lparr>Stored = [],
     Tx = table_of [person ''2'' 1 0 11 21, person ''3'' 1 0 12 22, person ''4'' 9 9 9 9],
     Shepherd = None, Added = 0, Updated = 0, Deleted = 1,
     TxLog = [(CallDelete (person ''1'' 1 0 10 20), None),
              (CallInsert (person ''4'' 0 5 13 24), Some (Error ''duplicate key''))]\<rparr>)"
  unfolding Collection_Reconcile_def sample_dispositions
  by (simp add: collection_of_def table_Tx_def table_of_def fun_eq_iff)

lemma shepherd_of_collection_of:
  "shepherd_of rf (collection_of ms s sh) =
     (case sh of None \<Rightarrow> DefaultShepherd rf | Some x \<Rightarrow> x)"
  by (simp add: shepherd_of_def collection_of_def)

lemma collection_of_fields:
  "TxLog (collection_of ms s sh) = []" "Added (collection_of ms s sh) = 0"
  "Updated (collection_of ms s sh) = 0" "Deleted (collection_of ms s sh) = 0"
  "Stored (collection_of ms s sh) = ms" "Tx (collection_of ms s sh) = s"
  "Shepherd (collection_of ms s sh) = sh"
  by (simp_all add: collection_of_def)

text \<open>Each phase on its own: an insert, two deletes of which the second fails, an update.\<close>

lemma doomed_map:
  "disposition_map (collection_of stored_sample s sh) [] =
     [''1'' \<mapsto> \<lparr>stored = Some (person ''1'' 1 0 10 20), desired = None\<rparr>,
      ''2'' \<mapsto> \<lparr>stored = Some (person ''2'' 1 0 11 21), desired = None\<rparr>,
      ''3'' \<mapsto> \<lparr>stored = Some (person ''3'' 1 0 12 22), desired = None\<rparr>]"
  by (simp add: disposition_map_def Collection_dispositions_def collection_of_def stored_sample_def)

lemma add_run:
  "Collection_add table_Tx [''4'', ''3'', ''2'', ''1'']
     (disposition_map (collection_of stored_sample (table_of stored_sample) None) desired_sample)
     (collection_of ([] :: int Model list) (table_of stored_sample) None) =
     (None,
      \<lparr>Stored = [], Tx = table_of [person ''1'' 1 0 10 20, person ''2'' 1 0 11 21, person ''3'' 1 0 12 22, person ''4'' 0 5 13 24], Shepherd = None,
        Added = 1, Updated = 0, Deleted = 0,
        TxLog = [(CallInsert (person ''4'' 0 5 13 24), None)]\<rparr>)"
  unfolding sample_map
  by (simp add: collection_of_def table_Tx_def table_of_def stored_sample_def  fun_eq_iff)

lemma delete_run:
  "Collection_delete table_Tx [''1'', ''2'', ''3'']
     (disposition_map (collection_of stored_sample (table_of stored_sample) None) [])
     (collection_of ([] :: int Model list) (table_of [person ''1'' 1 0 10 20, person ''3'' 1 0 12 22]) None) =
     (Some (Error ''not found''),
      \<lparr>Stored = [], Tx = table_of [person ''3'' 1 0 12 22], Shepherd = None,
        Added = 0, Updated = 0, Deleted = 1,
        TxLog = [(CallDelete (person ''1'' 1 0 10 20), None),
                 (CallDelete (person ''2'' 1 0 11 21), Some (Error ''not found''))]\<rparr>)"
  unfolding doomed_map
  by (simp add: collection_of_def table_Tx_def table_of_def stored_sample_def  fun_eq_iff)

lemma update_run:
  "Collection_update reflect_int table_Tx [''2'', ''4'', ''1'', ''3'']
     (disposition_map (collection_of stored_sample (table_of stored_sample) None) desired_sample)
     (collection_of ([] :: int Model list) (table_of stored_sample) None) =
     (Return None,
      \<lparr>Stored = [], Tx = table_of [person ''1'' 1 0 10 20, person ''2'' 1 0 11 21, person ''3'' 1 0 12 23], Shepherd = None,
        Added = 0, Updated = 1, Deleted = 0,
        TxLog = [(CallUpdate (person ''3'' 1 0 12 23), None)]\<rparr>)"
  unfolding sample_map
  by (simp add: collection_of_def table_Tx_def table_of_def stored_sample_def Collection_update_def DefaultShepherd_def sample_equal_2 sample_equal_3 sample_update_3 fun_eq_iff)


text \<open>The same runs, with the collections by their names.\<close>

lemma reconcile_sample:
  "Collection_Reconcile reflect_int table_Tx kd_sample ka_sample ku_sample desired_sample
     sample_start = (Return None, sample_end)"
  unfolding kd_sample_def ka_sample_def ku_sample_def sample_start_def sample_end_def
  by (rule sample_run)

lemma reconcile_stale:
  "Collection_Reconcile reflect_int table_Tx kd_sample ka_sample ku_sample desired_sample
     stale_start = (Return (Some (Error ''not found'')), stale_end)"
  unfolding kd_sample_def ka_sample_def ku_sample_def stale_start_def stale_end_def
  by (rule stale_run)

lemma reconcile_clash:
  "Collection_Reconcile reflect_int table_Tx kd_sample ka_sample ku_sample desired_sample
     clash_start = (Return (Some (Error ''duplicate key'')), clash_end)"
  unfolding kd_sample_def ka_sample_def ku_sample_def clash_start_def clash_end_def
  by (rule clash_run)

lemma add_sample:
  "Collection_add table_Tx ka_sample (disposition_map sample_start desired_sample) phase_start =
     (None, add_end)"
  unfolding ka_sample_def sample_start_def phase_start_def add_end_def
  by (rule add_run)

lemma delete_sample:
  "Collection_delete table_Tx [''1'', ''2'', ''3''] (disposition_map sample_start []) delete_start =
     (Some (Error ''not found''), delete_end)"
  unfolding sample_start_def delete_start_def delete_end_def
  by (rule delete_run)

lemma update_sample:
  "Collection_update reflect_int table_Tx ku_sample
     (disposition_map sample_start desired_sample) phase_start = (Return None, update_end)"
  unfolding ku_sample_def sample_start_def phase_start_def update_end_def
  by (rule update_run)
section \<open>Building the dispositions\<close>

lemma last_with_pk_None: "last_with_pk k ms = None \<longleftrightarrow> k \<notin> Pk ` set ms"
  by (induction ms) (auto split: option.splits)

lemma last_with_pk_Some: "last_with_pk k ms = Some m \<Longrightarrow> m \<in> set ms \<and> Pk m = k"
  by (induction ms) (auto split: option.splits if_splits)

lemma last_with_pk_append:
  "last_with_pk k (xs @ ys) =
     (case last_with_pk k ys of Some m \<Rightarrow> Some m | None \<Rightarrow> last_with_pk k xs)"
  by (induction xs) (auto split: option.splits)

lemma stored_loop_lookup:
  "stored_loop ms mp k =
     (case last_with_pk k ms of
        None \<Rightarrow> mp k
      | Some m \<Rightarrow> Some \<lparr>stored = Some m, desired = None\<rparr>)"
  by (induction ms arbitrary: mp) (auto split: option.splits)

lemma desired_loop_lookup:
  "desired_loop ms mp k =
     (case last_with_pk k ms of
        None \<Rightarrow> mp k
      | Some m \<Rightarrow>
          Some (case mp k of
                  None \<Rightarrow> \<lparr>stored = None, desired = Some m\<rparr>
                | Some dpn \<Rightarrow> dpn\<lparr>desired := Some m\<rparr>))"
  by (induction ms arbitrary: mp) (auto split: option.splits)

text \<open>
  The entry of a key pairs the model the stored sequence yields last under it with the
  model the desired sequence yields last under it; there is no entry when neither yields one.
\<close>

lemma disposition_map_lookup:
  "disposition_map r desiredModels k =
     (if last_with_pk k (Stored r) = None \<and> last_with_pk k desiredModels = None then None
      else Some \<lparr>stored = last_with_pk k (Stored r),
                 desired = last_with_pk k desiredModels\<rparr>)"
  by (simp add: disposition_map_def Collection_dispositions_def desired_loop_lookup
      stored_loop_lookup split: option.splits)

lemma add_set_iff:
  "k \<in> add_set (disposition_map r desiredModels) \<longleftrightarrow>
     last_with_pk k desiredModels \<noteq> None \<and> last_with_pk k (Stored r) = None"
  by (simp add: add_set_def disposition_map_lookup)

lemma update_set_iff:
  "k \<in> update_set (disposition_map r desiredModels) \<longleftrightarrow>
     last_with_pk k (Stored r) \<noteq> None \<and> last_with_pk k desiredModels \<noteq> None"
  by (auto simp: update_set_def disposition_map_lookup)

lemma delete_set_iff:
  "k \<in> delete_set (disposition_map r desiredModels) \<longleftrightarrow>
     last_with_pk k (Stored r) \<noteq> None \<and> last_with_pk k desiredModels = None"
  by (simp add: delete_set_def disposition_map_lookup)

lemma dom_disposition_map_iff:
  "k \<in> dom (disposition_map r desiredModels) \<longleftrightarrow>
     last_with_pk k (Stored r) \<noteq> None \<or> last_with_pk k desiredModels \<noteq> None"
  by (simp add: dom_def disposition_map_lookup)

text \<open>
  Claim C2. After \<^verbatim>\<open>dispositions\<close> the keys to add are the desired keys that are not
  stored, the keys to update the keys both stored and desired, the keys to delete the stored
  keys that are not desired. The three sets are pairwise disjoint, their union is the keys of
  the map and is the union of the stored and the desired keys, and no entry of the map has
  both models absent.
\<close>

theorem dispositions_partition:
  "add_set (disposition_map r desiredModels) = Pk ` set desiredModels - Pk ` set (Stored r) \<and>
   update_set (disposition_map r desiredModels) = Pk ` set (Stored r) \<inter> Pk ` set desiredModels \<and>
   delete_set (disposition_map r desiredModels) = Pk ` set (Stored r) - Pk ` set desiredModels \<and>
   add_set (disposition_map r desiredModels) \<inter> update_set (disposition_map r desiredModels) = {} \<and>
   add_set (disposition_map r desiredModels) \<inter> delete_set (disposition_map r desiredModels) = {} \<and>
   update_set (disposition_map r desiredModels) \<inter> delete_set (disposition_map r desiredModels) = {} \<and>
   add_set (disposition_map r desiredModels) \<union> update_set (disposition_map r desiredModels) \<union>
     delete_set (disposition_map r desiredModels) = Pk ` set (Stored r) \<union> Pk ` set desiredModels \<and>
   dom (disposition_map r desiredModels) = Pk ` set (Stored r) \<union> Pk ` set desiredModels \<and>
   void_set (disposition_map r desiredModels) = {}"
proof -
  let ?mp = "disposition_map r desiredModels"
  let ?S = "Pk ` set (Stored r)" and ?D = "Pk ` set desiredModels"
  have a: "add_set ?mp = ?D - ?S"
    by (rule set_eqI) (simp add: add_set_iff last_with_pk_None)
  have u: "update_set ?mp = ?S \<inter> ?D"
    by (rule set_eqI) (simp add: update_set_iff last_with_pk_None)
  have d: "delete_set ?mp = ?S - ?D"
    by (rule set_eqI) (simp add: delete_set_iff last_with_pk_None)
  have m: "dom ?mp = ?S \<union> ?D"
    by (rule set_eqI) (simp add: dom_disposition_map_iff last_with_pk_None)
  have v: "void_set ?mp = {}"
    by (simp add: void_set_def disposition_map_lookup)
  have "add_set ?mp \<inter> update_set ?mp = {}" "add_set ?mp \<inter> delete_set ?mp = {}"
    "update_set ?mp \<inter> delete_set ?mp = {}"
    "add_set ?mp \<union> update_set ?mp \<union> delete_set ?mp = ?S \<union> ?D"
    unfolding a u d by blast+
  with a u d m v show ?thesis by simp
qed

theorem dispositions_partition_witness:
  "add_set (disposition_map (collection_of stored_sample (table_of stored_sample) None)
     desired_sample) = {''4''} \<and>
   update_set (disposition_map (collection_of stored_sample (table_of stored_sample) None)
     desired_sample) = {''2'', ''3''} \<and>
   delete_set (disposition_map (collection_of stored_sample (table_of stored_sample) None)
     desired_sample) = {''1''}"
proof -
  have s: "Pk ` set (Stored (collection_of stored_sample (table_of stored_sample) None)) =
      {''1'', ''2'', ''3''}"
    by (simp add: collection_of_fields stored_sample_def)
  have d: "Pk ` set desired_sample = {''2'', ''3'', ''4''}"
    by (simp add: desired_sample_def)
  from dispositions_partition
    [of "collection_of stored_sample (table_of stored_sample) None" desired_sample]
  show ?thesis unfolding s d by auto
qed

text \<open>
  Claim C7. When a sequence yields two models with the same key, the entry of that key has
  the one yielded later: for the desired sequence it holds the later desired model next to
  the stored model already paired under the key, for the stored sequence the later stored
  model. \<^verbatim>\<open>dispositions\<close> has no error to return, and none is raised.
\<close>

theorem last_write_wins:
  assumes "Pk m1 = Pk m2" and "\<forall>m \<in> set zs. Pk m \<noteq> Pk m2"
  shows "disposition_map r (xs @ m1 # ys @ m2 # zs) (Pk m2) =
           Some \<lparr>stored = last_with_pk (Pk m2) (Stored r), desired = Some m2\<rparr> \<and>
         disposition_map (r\<lparr>Stored := xs @ m1 # ys @ m2 # zs\<rparr>) desiredModels (Pk m2) =
           Some \<lparr>stored = Some m2, desired = last_with_pk (Pk m2) desiredModels\<rparr>"
proof -
  from assms(2) have "Pk m2 \<notin> Pk ` set zs" by auto
  then have "last_with_pk (Pk m2) zs = None" by (simp add: last_with_pk_None)
  then have "last_with_pk (Pk m2) (m2 # zs) = Some m2" by simp
  then have "last_with_pk (Pk m2) (xs @ m1 # ys @ m2 # zs) = Some m2"
    using last_with_pk_append [of "Pk m2" "xs @ m1 # ys" "m2 # zs"] by simp
  then show ?thesis by (simp add: disposition_map_lookup)
qed

theorem last_write_wins_witness:
  "Pk (person ''2'' 0 5 11 21) = Pk (person ''2'' 0 6 77 21) \<and>
   Pk (person ''3'' 0 5 12 23) \<noteq> Pk (person ''2'' 0 6 77 21) \<and>
   disposition_map (collection_of stored_sample (table_of stored_sample) None)
     [person ''2'' 0 5 11 21, person ''4'' 0 5 13 24, person ''2'' 0 6 77 21,
      person ''3'' 0 5 12 23] ''2'' =
     Some \<lparr>stored = Some (person ''2'' 1 0 11 21), desired = Some (person ''2'' 0 6 77 21)\<rparr> \<and>
   disposition_map
     (collection_of [person ''2'' 0 5 11 21, person ''4'' 0 5 13 24, person ''2'' 0 6 77 21,
        person ''3'' 0 5 12 23] (table_of stored_sample) None)
     desired_sample ''2'' =
     Some \<lparr>stored = Some (person ''2'' 0 6 77 21), desired = Some (person ''2'' 0 5 11 21)\<rparr>"
proof -
  have h1: "Pk (person ''2'' 0 5 11 21) = Pk (person ''2'' 0 6 77 21)" by simp
  have h3: "Pk (person ''3'' 0 5 12 23) \<noteq> Pk (person ''2'' 0 6 77 21)" by simp
  then have h2: "\<forall>m \<in> set [person ''3'' 0 5 12 23]. Pk m \<noteq> Pk (person ''2'' 0 6 77 21)"
    by simp
  note t = last_write_wins [OF h1 h2,
      where r = "collection_of stored_sample (table_of stored_sample) None"
        and xs = "[]" and ys = "[person ''4'' 0 5 13 24]" and desiredModels = desired_sample]
  from t have "disposition_map (collection_of stored_sample (table_of stored_sample) None)
     [person ''2'' 0 5 11 21, person ''4'' 0 5 13 24, person ''2'' 0 6 77 21,
      person ''3'' 0 5 12 23] ''2'' =
     Some \<lparr>stored = Some (person ''2'' 1 0 11 21), desired = Some (person ''2'' 0 6 77 21)\<rparr>"
    by (simp add: collection_of_fields stored_sample_def)
  moreover from t have "disposition_map
     (collection_of [person ''2'' 0 5 11 21, person ''4'' 0 5 13 24, person ''2'' 0 6 77 21,
        person ''3'' 0 5 12 23] (table_of stored_sample) None)
     desired_sample ''2'' =
     Some \<lparr>stored = Some (person ''2'' 0 6 77 21), desired = Some (person ''2'' 0 5 11 21)\<rparr>"
    by (simp add: collection_of_def desired_sample_def)
  ultimately show ?thesis using h1 h3 by (intro conjI)
qed

section \<open>The phases\<close>

lemma record_log:
  "r' = r\<lparr>Tx := t, Added := a, TxLog := l\<rparr> \<Longrightarrow> TxLog r' = l"
  "r' = r\<lparr>Tx := t, Updated := a, TxLog := l\<rparr> \<Longrightarrow> TxLog r' = l"
  "r' = r\<lparr>Tx := t, Deleted := a, TxLog := l\<rparr> \<Longrightarrow> TxLog r' = l"
  by simp_all

lemma phase_log_Nil: "phase_log tx [] s (Return None) [] 0 s"
  by (simp add: phase_log_def)

lemma phase_log_panic: "phase_log tx plan s (Panicked p) [] 0 s"
  by (simp add: phase_log_def)

lemma phase_log_ok:
  assumes "Tx_call tx c s = (None, t)" and "phase_log tx plan t out new n s'"
  shows "phase_log tx (c # plan) s out ((c, None) # new) (Suc n) s'"
proof -
  from assms(2) have a: "map snd new =
      replicate n None @ (case out of Return (Some err) \<Rightarrow> [Some err] | _ \<Rightarrow> [])"
    and b: "map fst new = take (length new) plan"
    and c: "out = Return None \<longrightarrow> map fst new = plan"
    and d: "run_calls tx (map fst new) t = (map snd new, s')"
    unfolding phase_log_def by blast+
  show ?thesis
    unfolding phase_log_def
  proof (intro conjI)
    show "map snd ((c, None) # new) =
      replicate (Suc n) None @ (case out of Return (Some err) \<Rightarrow> [Some err] | _ \<Rightarrow> [])"
      using a by simp
    show "map fst ((c, None) # new) = take (length ((c, None) # new)) (c # plan)"
      using b by simp
    show "out = Return None \<longrightarrow> map fst ((c, None) # new) = c # plan"
      using c by simp
    show "run_calls tx (map fst ((c, None) # new)) s = (map snd ((c, None) # new), s')"
      using assms(1) d by simp
  qed
qed

lemma phase_log_fail:
  assumes "Tx_call tx c s = (Some e, t)"
  shows "phase_log tx (c # plan) s (Return (Some e)) [(c, Some e)] 0 t"
  using assms by (simp add: phase_log_def)

lemma Collection_add_cases:
  "(add_call mp k = [] \<and> Collection_add tx (k # ks) mp r = Collection_add tx ks mp r) \<or>
   (\<exists>c t. add_call mp k = [c] \<and> Tx_call tx c (Tx r) = (None, t) \<and>
      Collection_add tx (k # ks) mp r =
        Collection_add tx ks mp
          (r\<lparr>Tx := t, Added := Added r + 1, TxLog := TxLog r @ [(c, None)]\<rparr>)) \<or>
   (\<exists>c e t. add_call mp k = [c] \<and> Tx_call tx c (Tx r) = (Some e, t) \<and>
      Collection_add tx (k # ks) mp r =
        (Some e, r\<lparr>Tx := t, TxLog := TxLog r @ [(c, Some e)]\<rparr>))"
proof (cases "\<exists>dpn. mp k = Some dpn \<and> desired dpn \<noteq> None \<and> stored dpn = None")
  case False
  then have "add_call mp k = [] \<and> Collection_add tx (k # ks) mp r = Collection_add tx ks mp r"
    by (auto simp: add_call_def split: option.splits)
  then show ?thesis by blast
next
  case True
  then obtain dpn d where dpn: "mp k = Some dpn" "desired dpn = Some d" "stored dpn = None"
    by auto
  then have c: "add_call mp k = [CallInsert d]" by (simp add: add_call_def)
  obtain e t where res: "Tx_Insert tx d (Tx r) = (e, t)" by (cases "Tx_Insert tx d (Tx r)")
  then have call: "Tx_call tx (CallInsert d) (Tx r) = (e, t)" by (simp add: Tx_call_def)
  show ?thesis
  proof (cases e)
    case None
    with dpn res have "Collection_add tx (k # ks) mp r =
        Collection_add tx ks mp
          (r\<lparr>Tx := t, Added := Added r + 1, TxLog := TxLog r @ [(CallInsert d, None)]\<rparr>)"
      by simp
    with c call None show ?thesis by blast
  next
    case (Some err)
    with dpn res have "Collection_add tx (k # ks) mp r =
        (Some err, r\<lparr>Tx := t, TxLog := TxLog r @ [(CallInsert d, Some err)]\<rparr>)"
      by simp
    with c call Some show ?thesis by blast
  qed
qed

lemma Collection_add_log:
  "Collection_add tx ks mp r = (err, r') \<Longrightarrow>
   \<exists>new n. r' = r\<lparr>Tx := Tx r', Added := Added r + of_nat n, TxLog := TxLog r @ new\<rparr> \<and>
     phase_log tx (add_calls mp ks) (Tx r) (Return err) new n (Tx r')"
proof (induction ks arbitrary: r)
  case Nil
  then have "r' = r" "err = None" by simp_all
  then have "r' = r\<lparr>Tx := Tx r', Added := Added r + of_nat 0, TxLog := TxLog r @ []\<rparr> \<and>
     phase_log tx (add_calls mp []) (Tx r) (Return err) [] 0 (Tx r')"
    by (simp add: add_calls_def phase_log_Nil)
  then show ?case by blast
next
  case (Cons k ks)
  have plan: "add_calls mp (k # ks) = add_call mp k @ add_calls mp ks"
    by (simp add: add_calls_def)
  from Collection_add_cases [of mp k tx ks r]
  consider
    (skip) "add_call mp k = []" "Collection_add tx (k # ks) mp r = Collection_add tx ks mp r"
  | (ok) c t where "add_call mp k = [c]" "Tx_call tx c (Tx r) = (None, t)"
      "Collection_add tx (k # ks) mp r =
        Collection_add tx ks mp
          (r\<lparr>Tx := t, Added := Added r + 1, TxLog := TxLog r @ [(c, None)]\<rparr>)"
  | (fail) c e t where "add_call mp k = [c]" "Tx_call tx c (Tx r) = (Some e, t)"
      "Collection_add tx (k # ks) mp r =
        (Some e, r\<lparr>Tx := t, TxLog := TxLog r @ [(c, Some e)]\<rparr>)"
    by blast
  then show ?case
  proof cases
    case skip
    with Cons.prems have "Collection_add tx ks mp r = (err, r')" by simp
    from Cons.IH [OF this] skip(1) plan show ?thesis by simp
  next
    case ok
    let ?r1 = "r\<lparr>Tx := t, Added := Added r + 1, TxLog := TxLog r @ [(c, None)]\<rparr>"
    from ok Cons.prems have "Collection_add tx ks mp ?r1 = (err, r')" by simp
    from Cons.IH [OF this] obtain new n where
      r': "r' = ?r1\<lparr>Tx := Tx r', Added := Added ?r1 + of_nat n, TxLog := TxLog ?r1 @ new\<rparr>"
      and pl: "phase_log tx (add_calls mp ks) (Tx ?r1) (Return err) new n (Tx r')"
      by blast
    from pl have "phase_log tx (add_calls mp ks) t (Return err) new n (Tx r')" by simp
    from phase_log_ok [OF ok(2) this]
    have "phase_log tx (add_calls mp (k # ks)) (Tx r) (Return err) ((c, None) # new) (Suc n) (Tx r')"
      by (simp add: plan ok(1))
    moreover from r'
    have "r' = r\<lparr>Tx := Tx r', Added := Added r + of_nat (Suc n),
                  TxLog := TxLog r @ ((c, None) # new)\<rparr>"
      by (simp add: add.assoc)
    ultimately show ?thesis by blast
  next
    case fail
    with Cons.prems have e: "err = Some e"
      and r': "r' = r\<lparr>Tx := t, TxLog := TxLog r @ [(c, Some e)]\<rparr>"
      by simp_all
    from phase_log_fail [OF fail(2), of "add_calls mp ks"]
    have "phase_log tx (add_calls mp (k # ks)) (Tx r) (Return err) [(c, Some e)] 0 (Tx r')"
      by (simp add: plan fail(1) e r')
    moreover from r'
    have "r' = r\<lparr>Tx := Tx r', Added := Added r + of_nat 0, TxLog := TxLog r @ [(c, Some e)]\<rparr>"
      by simp
    ultimately show ?thesis by blast
  qed
qed

lemma Collection_delete_cases:
  "(delete_call mp k = [] \<and> Collection_delete tx (k # ks) mp r = Collection_delete tx ks mp r) \<or>
   (\<exists>c t. delete_call mp k = [c] \<and> Tx_call tx c (Tx r) = (None, t) \<and>
      Collection_delete tx (k # ks) mp r =
        Collection_delete tx ks mp
          (r\<lparr>Tx := t, Deleted := Deleted r + 1, TxLog := TxLog r @ [(c, None)]\<rparr>)) \<or>
   (\<exists>c e t. delete_call mp k = [c] \<and> Tx_call tx c (Tx r) = (Some e, t) \<and>
      Collection_delete tx (k # ks) mp r =
        (Some e, r\<lparr>Tx := t, TxLog := TxLog r @ [(c, Some e)]\<rparr>))"
proof (cases "\<exists>dpn. mp k = Some dpn \<and> stored dpn \<noteq> None \<and> desired dpn = None")
  case False
  then have "delete_call mp k = [] \<and> Collection_delete tx (k # ks) mp r = Collection_delete tx ks mp r"
    by (auto simp: delete_call_def split: option.splits)
  then show ?thesis by blast
next
  case True
  then obtain dpn d where dpn: "mp k = Some dpn" "stored dpn = Some d" "desired dpn = None"
    by auto
  then have c: "delete_call mp k = [CallDelete d]" by (simp add: delete_call_def)
  obtain e t where res: "Tx_Delete tx d (Tx r) = (e, t)" by (cases "Tx_Delete tx d (Tx r)")
  then have call: "Tx_call tx (CallDelete d) (Tx r) = (e, t)" by (simp add: Tx_call_def)
  show ?thesis
  proof (cases e)
    case None
    with dpn res have "Collection_delete tx (k # ks) mp r =
        Collection_delete tx ks mp
          (r\<lparr>Tx := t, Deleted := Deleted r + 1, TxLog := TxLog r @ [(CallDelete d, None)]\<rparr>)"
      by simp
    with c call None show ?thesis by blast
  next
    case (Some err)
    with dpn res have "Collection_delete tx (k # ks) mp r =
        (Some err, r\<lparr>Tx := t, TxLog := TxLog r @ [(CallDelete d, Some err)]\<rparr>)"
      by simp
    with c call Some show ?thesis by blast
  qed
qed

lemma Collection_delete_log:
  "Collection_delete tx ks mp r = (err, r') \<Longrightarrow>
   \<exists>new n. r' = r\<lparr>Tx := Tx r', Deleted := Deleted r + of_nat n, TxLog := TxLog r @ new\<rparr> \<and>
     phase_log tx (delete_calls mp ks) (Tx r) (Return err) new n (Tx r')"
proof (induction ks arbitrary: r)
  case Nil
  then have "r' = r" "err = None" by simp_all
  then have "r' = r\<lparr>Tx := Tx r', Deleted := Deleted r + of_nat 0, TxLog := TxLog r @ []\<rparr> \<and>
     phase_log tx (delete_calls mp []) (Tx r) (Return err) [] 0 (Tx r')"
    by (simp add: delete_calls_def phase_log_Nil)
  then show ?case by blast
next
  case (Cons k ks)
  have plan: "delete_calls mp (k # ks) = delete_call mp k @ delete_calls mp ks"
    by (simp add: delete_calls_def)
  from Collection_delete_cases [of mp k tx ks r]
  consider
    (skip) "delete_call mp k = []" "Collection_delete tx (k # ks) mp r = Collection_delete tx ks mp r"
  | (ok) c t where "delete_call mp k = [c]" "Tx_call tx c (Tx r) = (None, t)"
      "Collection_delete tx (k # ks) mp r =
        Collection_delete tx ks mp
          (r\<lparr>Tx := t, Deleted := Deleted r + 1, TxLog := TxLog r @ [(c, None)]\<rparr>)"
  | (fail) c e t where "delete_call mp k = [c]" "Tx_call tx c (Tx r) = (Some e, t)"
      "Collection_delete tx (k # ks) mp r =
        (Some e, r\<lparr>Tx := t, TxLog := TxLog r @ [(c, Some e)]\<rparr>)"
    by blast
  then show ?case
  proof cases
    case skip
    with Cons.prems have "Collection_delete tx ks mp r = (err, r')" by simp
    from Cons.IH [OF this] skip(1) plan show ?thesis by simp
  next
    case ok
    let ?r1 = "r\<lparr>Tx := t, Deleted := Deleted r + 1, TxLog := TxLog r @ [(c, None)]\<rparr>"
    from ok Cons.prems have "Collection_delete tx ks mp ?r1 = (err, r')" by simp
    from Cons.IH [OF this] obtain new n where
      r': "r' = ?r1\<lparr>Tx := Tx r', Deleted := Deleted ?r1 + of_nat n, TxLog := TxLog ?r1 @ new\<rparr>"
      and pl: "phase_log tx (delete_calls mp ks) (Tx ?r1) (Return err) new n (Tx r')"
      by blast
    from pl have "phase_log tx (delete_calls mp ks) t (Return err) new n (Tx r')" by simp
    from phase_log_ok [OF ok(2) this]
    have "phase_log tx (delete_calls mp (k # ks)) (Tx r) (Return err) ((c, None) # new) (Suc n) (Tx r')"
      by (simp add: plan ok(1))
    moreover from r'
    have "r' = r\<lparr>Tx := Tx r', Deleted := Deleted r + of_nat (Suc n),
                  TxLog := TxLog r @ ((c, None) # new)\<rparr>"
      by (simp add: add.assoc)
    ultimately show ?thesis by blast
  next
    case fail
    with Cons.prems have e: "err = Some e"
      and r': "r' = r\<lparr>Tx := t, TxLog := TxLog r @ [(c, Some e)]\<rparr>"
      by simp_all
    from phase_log_fail [OF fail(2), of "delete_calls mp ks"]
    have "phase_log tx (delete_calls mp (k # ks)) (Tx r) (Return err) [(c, Some e)] 0 (Tx r')"
      by (simp add: plan fail(1) e r')
    moreover from r'
    have "r' = r\<lparr>Tx := Tx r', Deleted := Deleted r + of_nat 0, TxLog := TxLog r @ [(c, Some e)]\<rparr>"
      by simp
    ultimately show ?thesis by blast
  qed
qed


lemma update_loop_cases:
  "(\<exists>p. update_step sh mp k = [Panic p] \<and>
      update_loop tx sh (k # ks) mp r = (Panicked p, r)) \<or>
   (update_call sh mp k = [] \<and> update_step sh mp k = [] \<and>
      update_loop tx sh (k # ks) mp r = update_loop tx sh ks mp r) \<or>
   (\<exists>c t. update_call sh mp k = [c] \<and> update_step sh mp k = [Call c] \<and>
      Tx_call tx c (Tx r) = (None, t) \<and>
      update_loop tx sh (k # ks) mp r =
        update_loop tx sh ks mp
          (r\<lparr>Tx := t, Updated := Updated r + 1, TxLog := TxLog r @ [(c, None)]\<rparr>)) \<or>
   (\<exists>c e t. update_call sh mp k = [c] \<and> update_step sh mp k = [Call c] \<and>
      Tx_call tx c (Tx r) = (Some e, t) \<and>
      update_loop tx sh (k # ks) mp r =
        (Return (Some e), r\<lparr>Tx := t, TxLog := TxLog r @ [(c, Some e)]\<rparr>))"
proof (cases "\<exists>dpn. mp k = Some dpn \<and> \<not> (desired dpn = None \<or> stored dpn = None)")
  case False
  then have "update_call sh mp k = [] \<and> update_step sh mp k = [] \<and>
      update_loop tx sh (k # ks) mp r = update_loop tx sh ks mp r"
    by (auto simp: update_call_def update_step_def split: option.splits)
  then show ?thesis by blast
next
  case True
  then obtain dpn d st where dpn: "mp k = Some dpn" "desired dpn = Some d" "stored dpn = Some st"
    by auto
  show ?thesis
  proof (cases "Shepherd_Equals sh d st")
    case (Inl p)
    with dpn have "update_step sh mp k = [Panic p] \<and>
        update_loop tx sh (k # ks) mp r = (Panicked p, r)"
      by (simp add: update_step_def)
    then show ?thesis by blast
  next
    case (Inr eq)
    show ?thesis
    proof (cases eq)
      case True
      with Inr dpn have "update_call sh mp k = [] \<and> update_step sh mp k = [] \<and>
          update_loop tx sh (k # ks) mp r = update_loop tx sh ks mp r"
        by (simp add: update_call_def update_step_def)
      then show ?thesis by blast
    next
      case False
      with Inr have neq: "Shepherd_Equals sh d st = Inr False" by simp
      show ?thesis
      proof (cases "Shepherd_Update sh st d")
        case (Inl p)
        with neq dpn have "update_step sh mp k = [Panic p] \<and>
            update_loop tx sh (k # ks) mp r = (Panicked p, r)"
          by (simp add: update_step_def)
        then show ?thesis by blast
      next
        case upd: (Inr st')
        with neq dpn have c: "update_call sh mp k = [CallUpdate st']"
          "update_step sh mp k = [Call (CallUpdate st')]"
          by (simp_all add: update_call_def update_step_def)
        obtain e t where res: "Tx_Update tx st' (Tx r) = (e, t)"
          by (cases "Tx_Update tx st' (Tx r)")
        then have call: "Tx_call tx (CallUpdate st') (Tx r) = (e, t)"
          by (simp add: Tx_call_def)
        show ?thesis
        proof (cases e)
          case None
          with dpn neq upd res have "update_loop tx sh (k # ks) mp r =
              update_loop tx sh ks mp
                (r\<lparr>Tx := t, Updated := Updated r + 1,
                   TxLog := TxLog r @ [(CallUpdate st', None)]\<rparr>)"
            by simp
          with c call None show ?thesis by blast
        next
          case (Some err)
          with dpn neq upd res have "update_loop tx sh (k # ks) mp r =
              (Return (Some err), r\<lparr>Tx := t, TxLog := TxLog r @ [(CallUpdate st', Some err)]\<rparr>)"
            by simp
          with c call Some show ?thesis by blast
        qed
      qed
    qed
  qed
qed

lemma update_loop_log:
  "update_loop tx sh ks mp r = (out, r') \<Longrightarrow>
   \<exists>new n. r' = r\<lparr>Tx := Tx r', Updated := Updated r + of_nat n, TxLog := TxLog r @ new\<rparr> \<and>
     phase_log tx (update_calls sh mp ks) (Tx r) out new n (Tx r')"
proof (induction ks arbitrary: r)
  case Nil
  then have "r' = r" "out = Return None" by simp_all
  then have "r' = r\<lparr>Tx := Tx r', Updated := Updated r + of_nat 0, TxLog := TxLog r @ []\<rparr> \<and>
     phase_log tx (update_calls sh mp []) (Tx r) out [] 0 (Tx r')"
    by (simp add: update_calls_def phase_log_Nil)
  then show ?case by blast
next
  case (Cons k ks)
  have plan: "update_calls sh mp (k # ks) = update_call sh mp k @ update_calls sh mp ks"
    by (simp add: update_calls_def)
  from update_loop_cases [of sh mp k tx ks r]
  consider
    (panic) p where "update_loop tx sh (k # ks) mp r = (Panicked p, r)"
  | (skip) "update_call sh mp k = []"
      "update_loop tx sh (k # ks) mp r = update_loop tx sh ks mp r"
  | (ok) c t where "update_call sh mp k = [c]" "Tx_call tx c (Tx r) = (None, t)"
      "update_loop tx sh (k # ks) mp r =
        update_loop tx sh ks mp
          (r\<lparr>Tx := t, Updated := Updated r + 1, TxLog := TxLog r @ [(c, None)]\<rparr>)"
  | (fail) c e t where "update_call sh mp k = [c]" "Tx_call tx c (Tx r) = (Some e, t)"
      "update_loop tx sh (k # ks) mp r =
        (Return (Some e), r\<lparr>Tx := t, TxLog := TxLog r @ [(c, Some e)]\<rparr>)"
    by blast
  then show ?case
  proof cases
    case panic
    with Cons.prems have "out = Panicked p" "r' = r" by simp_all
    then have "r' = r\<lparr>Tx := Tx r', Updated := Updated r + of_nat 0, TxLog := TxLog r @ []\<rparr> \<and>
       phase_log tx (update_calls sh mp (k # ks)) (Tx r) out [] 0 (Tx r')"
      by (simp add: phase_log_panic)
    then show ?thesis by blast
  next
    case skip
    with Cons.prems have "update_loop tx sh ks mp r = (out, r')" by simp
    from Cons.IH [OF this] skip(1) plan show ?thesis by simp
  next
    case ok
    let ?r1 = "r\<lparr>Tx := t, Updated := Updated r + 1, TxLog := TxLog r @ [(c, None)]\<rparr>"
    from ok Cons.prems have "update_loop tx sh ks mp ?r1 = (out, r')" by simp
    from Cons.IH [OF this] obtain new n where
      r': "r' = ?r1\<lparr>Tx := Tx r', Updated := Updated ?r1 + of_nat n, TxLog := TxLog ?r1 @ new\<rparr>"
      and pl: "phase_log tx (update_calls sh mp ks) (Tx ?r1) out new n (Tx r')"
      by blast
    from pl have "phase_log tx (update_calls sh mp ks) t out new n (Tx r')" by simp
    from phase_log_ok [OF ok(2) this]
    have "phase_log tx (update_calls sh mp (k # ks)) (Tx r) out ((c, None) # new) (Suc n) (Tx r')"
      by (simp add: plan ok(1))
    moreover from r'
    have "r' = r\<lparr>Tx := Tx r', Updated := Updated r + of_nat (Suc n),
                  TxLog := TxLog r @ ((c, None) # new)\<rparr>"
      by (simp add: add.assoc)
    ultimately show ?thesis by blast
  next
    case fail
    with Cons.prems have e: "out = Return (Some e)"
      and r': "r' = r\<lparr>Tx := t, TxLog := TxLog r @ [(c, Some e)]\<rparr>"
      by simp_all
    from phase_log_fail [OF fail(2), of "update_calls sh mp ks"]
    have "phase_log tx (update_calls sh mp (k # ks)) (Tx r) out [(c, Some e)] 0 (Tx r')"
      by (simp add: plan fail(1) e r')
    moreover from r'
    have "r' = r\<lparr>Tx := Tx r', Updated := Updated r + of_nat 0, TxLog := TxLog r @ [(c, Some e)]\<rparr>"
      by simp
    ultimately show ?thesis by blast
  qed
qed

lemma Collection_update_log:
  "Collection_update rf tx ks mp r = (out, r') \<Longrightarrow>
   \<exists>new n. r' = r\<lparr>Tx := Tx r', Updated := Updated r + of_nat n, TxLog := TxLog r @ new\<rparr> \<and>
     phase_log tx (update_calls (shepherd_of rf r) mp ks) (Tx r) out new n (Tx r')"
  unfolding Collection_update_def shepherd_of_def by (rule update_loop_log)

lemma add_frame:
  "r' = r\<lparr>Tx := t, Added := a, TxLog := l\<rparr> \<Longrightarrow>
   Added r' = a \<and> TxLog r' = l \<and> Updated r' = Updated r \<and> Deleted r' = Deleted r \<and>
   Stored r' = Stored r \<and> Shepherd r' = Shepherd r"
  by simp

lemma delete_frame:
  "r' = r\<lparr>Tx := t, Deleted := a, TxLog := l\<rparr> \<Longrightarrow>
   Deleted r' = a \<and> TxLog r' = l \<and> Added r' = Added r \<and> Updated r' = Updated r \<and>
   Stored r' = Stored r \<and> Shepherd r' = Shepherd r"
  by simp

lemma update_frame:
  "r' = r\<lparr>Tx := t, Updated := a, TxLog := l\<rparr> \<Longrightarrow>
   Updated r' = a \<and> TxLog r' = l \<and> Added r' = Added r \<and> Deleted r' = Deleted r \<and>
   Stored r' = Stored r \<and> Shepherd r' = Shepherd r"
  by simp

lemma phase_log_answers:
  "phase_log tx plan s out new n s' \<Longrightarrow>
   map snd new = replicate n None @ (case out of Return (Some err) \<Rightarrow> [Some err] | _ \<Rightarrow> [])"
  unfolding phase_log_def by blast

lemma phase_log_run:
  "phase_log tx plan s out new n s' \<Longrightarrow> run_calls tx (map fst new) s = (map snd new, s')"
  unfolding phase_log_def by blast

lemma phase_log_prefix:
  "phase_log tx plan s out new n s' \<Longrightarrow> map fst new = take (length new) plan"
  unfolding phase_log_def by blast

lemma phase_log_complete:
  "phase_log tx plan s (Return None) new n s' \<Longrightarrow> map fst new = plan \<and> n = length new"
proof -
  assume pl: "phase_log tx plan s (Return None) new n s'"
  then have "map fst new = plan" unfolding phase_log_def by blast
  moreover from phase_log_answers [OF pl] have "map snd new = replicate n None" by simp
  then have "length (map snd new) = n" by simp
  ultimately show ?thesis by simp
qed

lemma phase_log_error_entry:
  assumes "phase_log tx plan s out new n s'" and "(c, Some e) \<in> set new"
  shows "out = Return (Some e)"
proof -
  from assms(2) have "Some e \<in> set (map snd new)" by force
  with phase_log_answers [OF assms(1)]
  have "Some e \<in> set (case out of Return (Some err) \<Rightarrow> [Some err] | _ \<Rightarrow> [])"
    by auto
  then show ?thesis by (auto split: outcome.splits option.splits)
qed

lemma phase_log_successes:
  assumes "phase_log tx plan s out new n s'"
  shows "successes new = n"
proof -
  have "length (filter (\<lambda>x. snd x = None) new) =
      length (filter (\<lambda>e. e = None) (map snd new))"
    by (simp add: filter_map comp_def)
  also have "\<dots> = n"
    unfolding phase_log_answers [OF assms]
    by (simp split: outcome.splits option.splits)
  finally show ?thesis by (simp add: successes_def)
qed

lemma delete_calls_kind: "set (delete_calls mp ks) \<subseteq> range CallDelete"
  by (auto simp: delete_calls_def delete_call_def split: option.splits if_splits)

lemma add_calls_kind: "set (add_calls mp ks) \<subseteq> range CallInsert"
  by (auto simp: add_calls_def add_call_def split: option.splits if_splits)

lemma update_calls_kind: "set (update_calls sh mp ks) \<subseteq> range CallUpdate"
  by (auto simp: update_calls_def update_call_def
      split: option.splits if_splits sum.splits bool.splits)

lemma phase_log_kind:
  assumes "phase_log tx plan s out new n s'" and "set plan \<subseteq> K"
  shows "set (map fst new) \<subseteq> K"
proof -
  from phase_log_prefix [OF assms(1)] have "set (map fst new) \<subseteq> set plan"
    by (metis set_take_subset)
  with assms(2) show ?thesis by blast
qed

text \<open>
  A phase that returns has taken the steps of its plan as \<open>run_steps\<close> takes them.
\<close>

lemma phase_log_run_steps:
  "phase_log tx plan s (Return err) new n s' \<Longrightarrow>
   run_steps tx (map Call plan) s = (new, s', Return err)"
proof (induction new arbitrary: plan s n)
  case Nil
  from phase_log_answers [OF Nil]
  have ans: "[] = replicate n None @ (case err of Some e \<Rightarrow> [Some e] | None \<Rightarrow> [])"
    by (simp split: option.splits)
  from phase_log_run [OF Nil] have run: "s' = s" by simp
  from ans have err: "err = None" by (cases err) simp_all
  with Nil have "phase_log tx plan s (Return None) [] n s'" by simp
  from phase_log_complete [OF this] have "plan = []" by simp
  with err run show ?case by simp
next
  case (Cons x new)
  obtain c e where x: "x = (c, e)" by (cases x)
  from phase_log_answers [OF Cons.prems]
  have ans: "e # map snd new =
      replicate n None @ (case err of Some e \<Rightarrow> [Some e] | None \<Rightarrow> [])"
    by (simp add: x split: option.splits)
  from phase_log_prefix [OF Cons.prems]
  have pre: "c # map fst new = take (Suc (length new)) plan"
    by (simp add: x)
  have full: "c # map fst new = plan" if "err = None"
  proof -
    from that Cons.prems have "phase_log tx plan s (Return None) (x # new) n s'" by simp
    from phase_log_complete [OF this] show ?thesis by (simp add: x)
  qed
  from phase_log_run [OF Cons.prems]
  have run: "run_calls tx (c # map fst new) s = (e # map snd new, s')"
    by (simp add: x)
  from pre obtain plan' where plan: "plan = c # plan'"
    and pre': "map fst new = take (length new) plan'"
    by (cases plan) simp_all
  obtain e0 t where call: "Tx_call tx c s = (e0, t)" by (cases "Tx_call tx c s")
  obtain es u where rest: "run_calls tx (map fst new) t = (es, u)"
    by (cases "run_calls tx (map fst new) t")
  from run call rest have e0: "e0 = e" and es: "es = map snd new" and u: "u = s'"
    by simp_all
  show ?case
  proof (cases n)
    case 0
    with ans obtain err0 where err: "err = Some err0" and e: "e = Some err0"
      and nil: "map snd new = []"
      by (cases err) simp_all
    from nil have "new = []" by simp
    with rest u have "s' = t" by simp
    with call e0 e err x plan \<open>new = []\<close> show ?thesis by simp
  next
    case (Suc m)
    with ans have e: "e = None"
      and ans': "map snd new =
        replicate m None @ (case err of Some e \<Rightarrow> [Some e] | None \<Rightarrow> [])"
      by simp_all
    have "phase_log tx plan' t (Return err) new m s'"
      unfolding phase_log_def
    proof (intro conjI)
      show "map snd new =
          replicate m None @ (case Return err of Return (Some err) \<Rightarrow> [Some err] | _ \<Rightarrow> [])"
        using ans' by (simp split: option.splits)
      show "map fst new = take (length new) plan'" by (rule pre')
      show "Return err = Return None \<longrightarrow> map fst new = plan'"
        using full plan by simp
      show "run_calls tx (map fst new) t = (map snd new, s')"
        using rest es u by simp
    qed
    from Cons.IH [OF this] have "run_steps tx (map Call plan') t = (new, s', Return err)" .
    with call e0 e x plan show ?thesis by simp
  qed
qed

text \<open>
  The update phase, whichever way it ends, has taken its steps as \<open>run_steps\<close> takes them.
\<close>

lemma update_loop_steps:
  "update_loop tx sh ks mp r = (out, r') \<Longrightarrow>
   \<exists>new. TxLog r' = TxLog r @ new \<and>
     run_steps tx (update_steps sh mp ks) (Tx r) = (new, Tx r', out)"
proof (induction ks arbitrary: r)
  case Nil
  then have "r' = r" "out = Return None" by simp_all
  then have "TxLog r' = TxLog r @ [] \<and>
      run_steps tx (update_steps sh mp []) (Tx r) = ([], Tx r', out)"
    by (simp add: update_steps_def)
  then show ?case by blast
next
  case (Cons k ks)
  have plan: "update_steps sh mp (k # ks) = update_step sh mp k @ update_steps sh mp ks"
    by (simp add: update_steps_def)
  from update_loop_cases [of sh mp k tx ks r]
  consider
    (panic) p where "update_step sh mp k = [Panic p]"
      "update_loop tx sh (k # ks) mp r = (Panicked p, r)"
  | (skip) "update_step sh mp k = []"
      "update_loop tx sh (k # ks) mp r = update_loop tx sh ks mp r"
  | (ok) c t where "update_step sh mp k = [Call c]" "Tx_call tx c (Tx r) = (None, t)"
      "update_loop tx sh (k # ks) mp r =
        update_loop tx sh ks mp
          (r\<lparr>Tx := t, Updated := Updated r + 1, TxLog := TxLog r @ [(c, None)]\<rparr>)"
  | (fail) c e t where "update_step sh mp k = [Call c]" "Tx_call tx c (Tx r) = (Some e, t)"
      "update_loop tx sh (k # ks) mp r =
        (Return (Some e), r\<lparr>Tx := t, TxLog := TxLog r @ [(c, Some e)]\<rparr>)"
    by blast
  then show ?case
  proof cases
    case panic
    with Cons.prems have "out = Panicked p" "r' = r" by simp_all
    then have "TxLog r' = TxLog r @ [] \<and>
        run_steps tx (update_steps sh mp (k # ks)) (Tx r) = ([], Tx r', out)"
      by (simp add: plan panic(1))
    then show ?thesis by blast
  next
    case skip
    with Cons.prems have "update_loop tx sh ks mp r = (out, r')" by simp
    from Cons.IH [OF this] skip(1) plan show ?thesis by simp
  next
    case ok
    let ?r1 = "r\<lparr>Tx := t, Updated := Updated r + 1, TxLog := TxLog r @ [(c, None)]\<rparr>"
    from ok Cons.prems have "update_loop tx sh ks mp ?r1 = (out, r')" by simp
    from Cons.IH [OF this] obtain new where
      log: "TxLog r' = TxLog ?r1 @ new"
      and run: "run_steps tx (update_steps sh mp ks) (Tx ?r1) = (new, Tx r', out)"
      by blast
    from log have "TxLog r' = TxLog r @ ((c, None) # new)" by simp
    moreover from run ok(2)
    have "run_steps tx (update_steps sh mp (k # ks)) (Tx r) = ((c, None) # new, Tx r', out)"
      by (simp add: plan ok(1))
    ultimately show ?thesis by blast
  next
    case fail
    with Cons.prems have e: "out = Return (Some e)"
      and r': "r' = r\<lparr>Tx := t, TxLog := TxLog r @ [(c, Some e)]\<rparr>"
      by simp_all
    from r' have "TxLog r' = TxLog r @ [(c, Some e)]" by simp
    moreover from fail(2) r'
    have "run_steps tx (update_steps sh mp (k # ks)) (Tx r) = ([(c, Some e)], Tx r', out)"
      by (simp add: plan fail(1) e)
    ultimately show ?thesis by blast
  qed
qed

lemma Collection_update_steps:
  "Collection_update rf tx ks mp r = (out, r') \<Longrightarrow>
   \<exists>new. TxLog r' = TxLog r @ new \<and>
     run_steps tx (update_steps (shepherd_of rf r) mp ks) (Tx r) = (new, Tx r', out)"
  unfolding Collection_update_def shepherd_of_def by (rule update_loop_steps)


section \<open>Properties of the phases and of Reconcile\<close>

text \<open>
  Claim C1. \<^verbatim>\<open>Reconcile\<close> builds the disposition map once, draining the stored sequence,
  and then runs the delete, the add and the update phase on this one map, in this order.
  What it adds to the log is the calls \<open>dl\<close> of the delete phase, then the calls \<open>al\<close> of
  the add phase, then the calls \<open>ul\<close> of the update phase; they are calls of \<^verbatim>\<open>Delete\<close>,
  of \<^verbatim>\<open>Insert\<close> and of \<^verbatim>\<open>Update\<close>, and each counter has grown by the number of calls
  of its phase that succeeded.
  \<^item> The delete phase takes the steps that the map gives it, from the state the
    transaction is in, as \<open>run_steps\<close> takes them: up to the first call that fails.
  \<^item> If it does not return \<^verbatim>\<open>nil\<close>, \<^verbatim>\<open>Reconcile\<close> returns what it returned, and no
    call of the add or of the update phase is made.
  \<^item> If it returns \<^verbatim>\<open>nil\<close>, so that all its calls have been made, the add phase takes
    its steps from the state the delete phase left, and likewise ends \<^verbatim>\<open>Reconcile\<close>
    when it fails; otherwise the update phase takes its steps from the state the add phase
    left, and \<^verbatim>\<open>Reconcile\<close> ends as the update phase does.
  In particular a call of the delete phase that answers with an error leaves \<^verbatim>\<open>Added\<close>
  and \<^verbatim>\<open>Updated\<close> as they were.
\<close>

theorem Reconcile_phase_order:
  assumes "Collection_Reconcile rf tx kd ka ku desiredModels r = (out, r')"
  shows "\<exists>dl al ul s1 s2 od oa.
           TxLog r' = TxLog r @ dl @ al @ ul \<and> Stored r' = [] \<and>
           Deleted r' = Deleted r + of_nat (successes dl) \<and>
           Added r' = Added r + of_nat (successes al) \<and>
           Updated r' = Updated r + of_nat (successes ul) \<and>
           Shepherd r' = Shepherd r \<and>
           set (map fst dl) \<subseteq> range CallDelete \<and>
           set (map fst al) \<subseteq> range CallInsert \<and>
           set (map fst ul) \<subseteq> range CallUpdate \<and>
           run_steps tx (delete_steps (disposition_map r desiredModels) kd) (Tx r) = (dl, s1, od) \<and>
           (od \<noteq> Return None \<longrightarrow> out = od \<and> al = [] \<and> ul = [] \<and> Tx r' = s1) \<and>
           (od = Return None \<longrightarrow>
              run_steps tx (add_steps (disposition_map r desiredModels) ka) s1 = (al, s2, oa) \<and>
              (oa \<noteq> Return None \<longrightarrow> out = oa \<and> ul = [] \<and> Tx r' = s2) \<and>
              (oa = Return None \<longrightarrow>
                 run_steps tx (update_steps (shepherd_of rf r) (disposition_map r desiredModels) ku) s2 =
                   (ul, Tx r', out))) \<and>
           (\<forall>c e. (c, Some e) \<in> set dl \<longrightarrow>
              out = Return (Some e) \<and> al = [] \<and> ul = [] \<and>
              Added r' = Added r \<and> Updated r' = Updated r) \<and>
           (\<forall>c e. (c, Some e) \<in> set al \<longrightarrow>
              out = Return (Some e) \<and> ul = [] \<and> Updated r' = Updated r)"
    (is "\<exists>dl al ul s1 s2 od oa. ?P dl al ul s1 s2 od oa")
proof -
  define mp where "mp = disposition_map r desiredModels"
  define r0 where "r0 = r\<lparr>Stored := []\<rparr>"
  have disp: "Collection_dispositions r desiredModels = (mp, r0)"
    by (simp add: mp_def r0_def disposition_map_def Collection_dispositions_def)
  obtain e1 r1 where d: "Collection_delete tx kd mp r0 = (e1, r1)"
    by (cases "Collection_delete tx kd mp r0")
  from Collection_delete_log [OF d] obtain dl n1 where
    r1: "r1 = r0\<lparr>Tx := Tx r1, Deleted := Deleted r0 + of_nat n1, TxLog := TxLog r0 @ dl\<rparr>"
    and pl1: "phase_log tx (delete_calls mp kd) (Tx r0) (Return e1) dl n1 (Tx r1)"
    by blast
  note f1 = delete_frame [OF r1]
  note k1 = phase_log_kind [OF pl1 delete_calls_kind]
  note c1 = phase_log_successes [OF pl1]
  from phase_log_run_steps [OF pl1]
  have s1: "run_steps tx (delete_steps mp kd) (Tx r) = (dl, Tx r1, Return e1)"
    by (simp add: delete_steps_def r0_def)
  show ?thesis
  proof (cases e1)
    case (Some e)
    with assms disp d have res: "out = Return (Some e)" "r' = r1"
      by (simp_all add: Collection_Reconcile_def)
    have "TxLog r' = TxLog r @ dl @ [] @ []" "Stored r' = []"
      "Added r' = Added r" "Updated r' = Updated r"
      "Deleted r' = Deleted r + of_nat (successes dl)" "Shepherd r' = Shepherd r"
      "successes ([] :: ('a TxCall \<times> error option) list) = 0"
      using f1 res c1 by (simp_all add: r0_def successes_def)
    moreover have "out = Return (Some e')" if "(c, Some e') \<in> set dl" for c e'
      using phase_log_error_entry [OF pl1 that] Some res by simp
    ultimately have "?P dl [] [] (Tx r1) (Tx r1) (Return e1) (Return None)"
      using k1 s1 Some res unfolding mp_def [symmetric] by simp
    then show ?thesis by blast
  next
    case None
    have no1: "(c, Some e) \<notin> set dl" for c e
      using phase_log_error_entry [OF pl1, of c e] None by auto
    obtain e2 r2 where a: "Collection_add tx ka mp r1 = (e2, r2)"
      by (cases "Collection_add tx ka mp r1")
    from Collection_add_log [OF a] obtain al n2 where
      r2: "r2 = r1\<lparr>Tx := Tx r2, Added := Added r1 + of_nat n2, TxLog := TxLog r1 @ al\<rparr>"
      and pl2: "phase_log tx (add_calls mp ka) (Tx r1) (Return e2) al n2 (Tx r2)"
      by blast
    note f2 = add_frame [OF r2]
    note k2 = phase_log_kind [OF pl2 add_calls_kind]
    note c2 = phase_log_successes [OF pl2]
    from phase_log_run_steps [OF pl2]
    have s2: "run_steps tx (add_steps mp ka) (Tx r1) = (al, Tx r2, Return e2)"
      by (simp add: add_steps_def)
    show ?thesis
    proof (cases e2)
      case (Some e)
      with assms disp d a None have res: "out = Return (Some e)" "r' = r2"
        by (simp_all add: Collection_Reconcile_def)
      have "TxLog r' = TxLog r @ dl @ al @ []" "Stored r' = []" "Updated r' = Updated r"
        "Deleted r' = Deleted r + of_nat (successes dl)"
        "Added r' = Added r + of_nat (successes al)" "Shepherd r' = Shepherd r"
        "successes ([] :: ('a TxCall \<times> error option) list) = 0"
        using f1 f2 res c1 c2 by (simp_all add: r0_def successes_def)
      moreover have "out = Return (Some e')" if "(c, Some e') \<in> set al" for c e'
        using phase_log_error_entry [OF pl2 that] Some res by simp
      ultimately have "?P dl al [] (Tx r1) (Tx r2) (Return e1) (Return e2)"
        using k1 k2 s1 s2 None Some res no1 unfolding mp_def [symmetric] by simp
      then show ?thesis by blast
    next
      case none2: None
      have no2: "(c, Some e) \<notin> set al" for c e
        using phase_log_error_entry [OF pl2, of c e] none2 by auto
      from assms disp d a None none2 have u: "Collection_update rf tx ku mp r2 = (out, r')"
        by (simp add: Collection_Reconcile_def)
      from Collection_update_log [OF u] obtain ul n3 where
        r3: "r' = r2\<lparr>Tx := Tx r', Updated := Updated r2 + of_nat n3, TxLog := TxLog r2 @ ul\<rparr>"
        and pl3: "phase_log tx (update_calls (shepherd_of rf r2) mp ku) (Tx r2) out ul n3 (Tx r')"
        by blast
      note f3 = update_frame [OF r3]
      have sh: "shepherd_of rf r2 = shepherd_of rf r"
        using f1 f2 by (simp add: shepherd_of_def r0_def)
      note k3 = phase_log_kind [OF pl3 update_calls_kind]
      note c3 = phase_log_successes [OF pl3]
      from Collection_update_steps [OF u] obtain ul' where
        "TxLog r' = TxLog r2 @ ul'"
        and "run_steps tx (update_steps (shepherd_of rf r2) mp ku) (Tx r2) = (ul', Tx r', out)"
        by blast
      with f3 sh
      have s3: "run_steps tx (update_steps (shepherd_of rf r) mp ku) (Tx r2) = (ul, Tx r', out)"
        by simp
      have "TxLog r' = TxLog r @ dl @ al @ ul" "Stored r' = []"
        "Deleted r' = Deleted r + of_nat (successes dl)"
        "Added r' = Added r + of_nat (successes al)"
        "Updated r' = Updated r + of_nat (successes ul)" "Shepherd r' = Shepherd r"
        using f1 f2 f3 c1 c2 c3 by (simp_all add: r0_def)
      then have "?P dl al ul (Tx r1) (Tx r2) (Return e1) (Return e2)"
        using k1 k2 k3 s1 s2 s3 None none2 no1 no2 unfolding mp_def [symmetric] by simp
      then show ?thesis by blast
    qed
  qed
qed

theorem Reconcile_phase_order_witness:
  "Collection_Reconcile reflect_int table_Tx kd_sample ka_sample ku_sample desired_sample
     sample_start = (Return None, sample_end) \<and>
   (\<exists>dl al ul s1 s2 od oa.
      TxLog sample_end = TxLog sample_start @ dl @ al @ ul \<and> Stored sample_end = [] \<and>
      Deleted sample_end = Deleted sample_start + of_nat (successes dl) \<and>
      Added sample_end = Added sample_start + of_nat (successes al) \<and>
      Updated sample_end = Updated sample_start + of_nat (successes ul) \<and>
      Shepherd sample_end = Shepherd sample_start \<and>
      set (map fst dl) \<subseteq> range CallDelete \<and>
      set (map fst al) \<subseteq> range CallInsert \<and>
      set (map fst ul) \<subseteq> range CallUpdate \<and>
      run_steps table_Tx (delete_steps (disposition_map sample_start desired_sample) kd_sample) (Tx sample_start) = (dl, s1, od) \<and>
      (od \<noteq> Return None \<longrightarrow> (Return None) = od \<and> al = [] \<and> ul = [] \<and> Tx sample_end = s1) \<and>
      (od = Return None \<longrightarrow>
         run_steps table_Tx (add_steps (disposition_map sample_start desired_sample) ka_sample) s1 = (al, s2, oa) \<and>
         (oa \<noteq> Return None \<longrightarrow> (Return None) = oa \<and> ul = [] \<and> Tx sample_end = s2) \<and>
         (oa = Return None \<longrightarrow>
            run_steps table_Tx (update_steps (shepherd_of reflect_int sample_start) (disposition_map sample_start desired_sample) ku_sample) s2 =
              (ul, Tx sample_end, (Return None)))) \<and>
      (\<forall>c e. (c, Some e) \<in> set dl \<longrightarrow>
         (Return None) = Return (Some e) \<and> al = [] \<and> ul = [] \<and>
         Added sample_end = Added sample_start \<and> Updated sample_end = Updated sample_start) \<and>
      (\<forall>c e. (c, Some e) \<in> set al \<longrightarrow>
         (Return None) = Return (Some e) \<and> ul = [] \<and> Updated sample_end = Updated sample_start)) \<and>
   Collection_Reconcile reflect_int table_Tx kd_sample ka_sample ku_sample desired_sample
     stale_start = (Return (Some (Error ''not found'')), stale_end) \<and>
   (\<exists>dl al ul s1 s2 od oa.
      TxLog stale_end = TxLog stale_start @ dl @ al @ ul \<and> Stored stale_end = [] \<and>
      Deleted stale_end = Deleted stale_start + of_nat (successes dl) \<and>
      Added stale_end = Added stale_start + of_nat (successes al) \<and>
      Updated stale_end = Updated stale_start + of_nat (successes ul) \<and>
      Shepherd stale_end = Shepherd stale_start \<and>
      set (map fst dl) \<subseteq> range CallDelete \<and>
      set (map fst al) \<subseteq> range CallInsert \<and>
      set (map fst ul) \<subseteq> range CallUpdate \<and>
      run_steps table_Tx (delete_steps (disposition_map stale_start desired_sample) kd_sample) (Tx stale_start) = (dl, s1, od) \<and>
      (od \<noteq> Return None \<longrightarrow> (Return (Some (Error ''not found''))) = od \<and> al = [] \<and> ul = [] \<and> Tx stale_end = s1) \<and>
      (od = Return None \<longrightarrow>
         run_steps table_Tx (add_steps (disposition_map stale_start desired_sample) ka_sample) s1 = (al, s2, oa) \<and>
         (oa \<noteq> Return None \<longrightarrow> (Return (Some (Error ''not found''))) = oa \<and> ul = [] \<and> Tx stale_end = s2) \<and>
         (oa = Return None \<longrightarrow>
            run_steps table_Tx (update_steps (shepherd_of reflect_int stale_start) (disposition_map stale_start desired_sample) ku_sample) s2 =
              (ul, Tx stale_end, (Return (Some (Error ''not found'')))))) \<and>
      (\<forall>c e. (c, Some e) \<in> set dl \<longrightarrow>
         (Return (Some (Error ''not found''))) = Return (Some e) \<and> al = [] \<and> ul = [] \<and>
         Added stale_end = Added stale_start \<and> Updated stale_end = Updated stale_start) \<and>
      (\<forall>c e. (c, Some e) \<in> set al \<longrightarrow>
         (Return (Some (Error ''not found''))) = Return (Some e) \<and> ul = [] \<and> Updated stale_end = Updated stale_start)) \<and>
   Collection_Reconcile reflect_int table_Tx kd_sample ka_sample ku_sample desired_sample
     clash_start = (Return (Some (Error ''duplicate key'')), clash_end) \<and>
   (\<exists>dl al ul s1 s2 od oa.
      TxLog clash_end = TxLog clash_start @ dl @ al @ ul \<and> Stored clash_end = [] \<and>
      Deleted clash_end = Deleted clash_start + of_nat (successes dl) \<and>
      Added clash_end = Added clash_start + of_nat (successes al) \<and>
      Updated clash_end = Updated clash_start + of_nat (successes ul) \<and>
      Shepherd clash_end = Shepherd clash_start \<and>
      set (map fst dl) \<subseteq> range CallDelete \<and>
      set (map fst al) \<subseteq> range CallInsert \<and>
      set (map fst ul) \<subseteq> range CallUpdate \<and>
      run_steps table_Tx (delete_steps (disposition_map clash_start desired_sample) kd_sample) (Tx clash_start) = (dl, s1, od) \<and>
      (od \<noteq> Return None \<longrightarrow> (Return (Some (Error ''duplicate key''))) = od \<and> al = [] \<and> ul = [] \<and> Tx clash_end = s1) \<and>
      (od = Return None \<longrightarrow>
         run_steps table_Tx (add_steps (disposition_map clash_start desired_sample) ka_sample) s1 = (al, s2, oa) \<and>
         (oa \<noteq> Return None \<longrightarrow> (Return (Some (Error ''duplicate key''))) = oa \<and> ul = [] \<and> Tx clash_end = s2) \<and>
         (oa = Return None \<longrightarrow>
            run_steps table_Tx (update_steps (shepherd_of reflect_int clash_start) (disposition_map clash_start desired_sample) ku_sample) s2 =
              (ul, Tx clash_end, (Return (Some (Error ''duplicate key'')))))) \<and>
      (\<forall>c e. (c, Some e) \<in> set dl \<longrightarrow>
         (Return (Some (Error ''duplicate key''))) = Return (Some e) \<and> al = [] \<and> ul = [] \<and>
         Added clash_end = Added clash_start \<and> Updated clash_end = Updated clash_start) \<and>
      (\<forall>c e. (c, Some e) \<in> set al \<longrightarrow>
         (Return (Some (Error ''duplicate key''))) = Return (Some e) \<and> ul = [] \<and> Updated clash_end = Updated clash_start))"
proof -
  from Reconcile_phase_order [OF reconcile_sample]
  have c0: "\<exists>dl al ul s1 s2 od oa.
      TxLog sample_end = TxLog sample_start @ dl @ al @ ul \<and> Stored sample_end = [] \<and>
      Deleted sample_end = Deleted sample_start + of_nat (successes dl) \<and>
      Added sample_end = Added sample_start + of_nat (successes al) \<and>
      Updated sample_end = Updated sample_start + of_nat (successes ul) \<and>
      Shepherd sample_end = Shepherd sample_start \<and>
      set (map fst dl) \<subseteq> range CallDelete \<and>
      set (map fst al) \<subseteq> range CallInsert \<and>
      set (map fst ul) \<subseteq> range CallUpdate \<and>
      run_steps table_Tx (delete_steps (disposition_map sample_start desired_sample) kd_sample) (Tx sample_start) = (dl, s1, od) \<and>
      (od \<noteq> Return None \<longrightarrow> (Return None) = od \<and> al = [] \<and> ul = [] \<and> Tx sample_end = s1) \<and>
      (od = Return None \<longrightarrow>
         run_steps table_Tx (add_steps (disposition_map sample_start desired_sample) ka_sample) s1 = (al, s2, oa) \<and>
         (oa \<noteq> Return None \<longrightarrow> (Return None) = oa \<and> ul = [] \<and> Tx sample_end = s2) \<and>
         (oa = Return None \<longrightarrow>
            run_steps table_Tx (update_steps (shepherd_of reflect_int sample_start) (disposition_map sample_start desired_sample) ku_sample) s2 =
              (ul, Tx sample_end, (Return None)))) \<and>
      (\<forall>c e. (c, Some e) \<in> set dl \<longrightarrow>
         (Return None) = Return (Some e) \<and> al = [] \<and> ul = [] \<and>
         Added sample_end = Added sample_start \<and> Updated sample_end = Updated sample_start) \<and>
      (\<forall>c e. (c, Some e) \<in> set al \<longrightarrow>
         (Return None) = Return (Some e) \<and> ul = [] \<and> Updated sample_end = Updated sample_start)" .
  from Reconcile_phase_order [OF reconcile_stale]
  have c1: "\<exists>dl al ul s1 s2 od oa.
      TxLog stale_end = TxLog stale_start @ dl @ al @ ul \<and> Stored stale_end = [] \<and>
      Deleted stale_end = Deleted stale_start + of_nat (successes dl) \<and>
      Added stale_end = Added stale_start + of_nat (successes al) \<and>
      Updated stale_end = Updated stale_start + of_nat (successes ul) \<and>
      Shepherd stale_end = Shepherd stale_start \<and>
      set (map fst dl) \<subseteq> range CallDelete \<and>
      set (map fst al) \<subseteq> range CallInsert \<and>
      set (map fst ul) \<subseteq> range CallUpdate \<and>
      run_steps table_Tx (delete_steps (disposition_map stale_start desired_sample) kd_sample) (Tx stale_start) = (dl, s1, od) \<and>
      (od \<noteq> Return None \<longrightarrow> (Return (Some (Error ''not found''))) = od \<and> al = [] \<and> ul = [] \<and> Tx stale_end = s1) \<and>
      (od = Return None \<longrightarrow>
         run_steps table_Tx (add_steps (disposition_map stale_start desired_sample) ka_sample) s1 = (al, s2, oa) \<and>
         (oa \<noteq> Return None \<longrightarrow> (Return (Some (Error ''not found''))) = oa \<and> ul = [] \<and> Tx stale_end = s2) \<and>
         (oa = Return None \<longrightarrow>
            run_steps table_Tx (update_steps (shepherd_of reflect_int stale_start) (disposition_map stale_start desired_sample) ku_sample) s2 =
              (ul, Tx stale_end, (Return (Some (Error ''not found'')))))) \<and>
      (\<forall>c e. (c, Some e) \<in> set dl \<longrightarrow>
         (Return (Some (Error ''not found''))) = Return (Some e) \<and> al = [] \<and> ul = [] \<and>
         Added stale_end = Added stale_start \<and> Updated stale_end = Updated stale_start) \<and>
      (\<forall>c e. (c, Some e) \<in> set al \<longrightarrow>
         (Return (Some (Error ''not found''))) = Return (Some e) \<and> ul = [] \<and> Updated stale_end = Updated stale_start)" .
  from Reconcile_phase_order [OF reconcile_clash]
  have c2: "\<exists>dl al ul s1 s2 od oa.
      TxLog clash_end = TxLog clash_start @ dl @ al @ ul \<and> Stored clash_end = [] \<and>
      Deleted clash_end = Deleted clash_start + of_nat (successes dl) \<and>
      Added clash_end = Added clash_start + of_nat (successes al) \<and>
      Updated clash_end = Updated clash_start + of_nat (successes ul) \<and>
      Shepherd clash_end = Shepherd clash_start \<and>
      set (map fst dl) \<subseteq> range CallDelete \<and>
      set (map fst al) \<subseteq> range CallInsert \<and>
      set (map fst ul) \<subseteq> range CallUpdate \<and>
      run_steps table_Tx (delete_steps (disposition_map clash_start desired_sample) kd_sample) (Tx clash_start) = (dl, s1, od) \<and>
      (od \<noteq> Return None \<longrightarrow> (Return (Some (Error ''duplicate key''))) = od \<and> al = [] \<and> ul = [] \<and> Tx clash_end = s1) \<and>
      (od = Return None \<longrightarrow>
         run_steps table_Tx (add_steps (disposition_map clash_start desired_sample) ka_sample) s1 = (al, s2, oa) \<and>
         (oa \<noteq> Return None \<longrightarrow> (Return (Some (Error ''duplicate key''))) = oa \<and> ul = [] \<and> Tx clash_end = s2) \<and>
         (oa = Return None \<longrightarrow>
            run_steps table_Tx (update_steps (shepherd_of reflect_int clash_start) (disposition_map clash_start desired_sample) ku_sample) s2 =
              (ul, Tx clash_end, (Return (Some (Error ''duplicate key'')))))) \<and>
      (\<forall>c e. (c, Some e) \<in> set dl \<longrightarrow>
         (Return (Some (Error ''duplicate key''))) = Return (Some e) \<and> al = [] \<and> ul = [] \<and>
         Added clash_end = Added clash_start \<and> Updated clash_end = Updated clash_start) \<and>
      (\<forall>c e. (c, Some e) \<in> set al \<longrightarrow>
         (Return (Some (Error ''duplicate key''))) = Return (Some e) \<and> ul = [] \<and> Updated clash_end = Updated clash_start)" .
  from reconcile_sample c0 reconcile_stale c1 reconcile_clash c2 show ?thesis by (intro conjI)
qed

text \<open>
  Claim C6. Each of the phases \<^verbatim>\<open>add\<close>, \<^verbatim>\<open>delete\<close> and \<^verbatim>\<open>update\<close> takes the steps that
  the disposition map gives it as \<open>run_steps\<close> takes them, from the first on and in the
  order of its \<^verbatim>\<open>range\<close>, until a call fails. The calls it has made are the first ones
  of its plan: \<open>n\<close> calls that succeeded, followed, exactly when the phase returns an error,
  by one last call that answered with this very error; when the phase returns \<^verbatim>\<open>nil\<close>
  they are the whole plan. So the first failing call ends the phase, its error is returned
  as it is, and no later call of the plan is made. The state behind the transaction is the
  state after all these calls, none undone. The counter of the phase has grown by \<open>n\<close>,
  one for each call that succeeded; the other two counters, the stored sequence and the
  shepherd are as before.
\<close>

theorem phase_aborts_at_first_error:
  "(Collection_add tx ks mp r = (err, r') \<longrightarrow>
      (\<exists>new n.
         TxLog r' = TxLog r @ new \<and>
         run_steps tx (add_steps mp ks) (Tx r) =
           (new, Tx r', Return err) \<and>
         map fst new = take (length new) (add_calls mp ks) \<and>
         (err = None \<longrightarrow>
            map fst new = add_calls mp ks) \<and>
         map snd new = replicate n None @ (case err of None \<Rightarrow> [] | Some e \<Rightarrow> [Some e]) \<and>
         run_calls tx (map fst new) (Tx r) = (map snd new, Tx r') \<and>
         Added r' = Added r + of_nat n \<and> Updated r' = Updated r \<and> Deleted r' = Deleted r \<and>
         Stored r' = Stored r \<and> Shepherd r' = Shepherd r)) \<and>
   (Collection_delete tx ks mp r = (err, r') \<longrightarrow>
      (\<exists>new n.
         TxLog r' = TxLog r @ new \<and>
         run_steps tx (delete_steps mp ks) (Tx r) =
           (new, Tx r', Return err) \<and>
         map fst new = take (length new) (delete_calls mp ks) \<and>
         (err = None \<longrightarrow>
            map fst new = delete_calls mp ks) \<and>
         map snd new = replicate n None @ (case err of None \<Rightarrow> [] | Some e \<Rightarrow> [Some e]) \<and>
         run_calls tx (map fst new) (Tx r) = (map snd new, Tx r') \<and>
         Deleted r' = Deleted r + of_nat n \<and> Added r' = Added r \<and> Updated r' = Updated r \<and>
         Stored r' = Stored r \<and> Shepherd r' = Shepherd r)) \<and>
   (Collection_update rf tx ks mp r = (out, r') \<longrightarrow>
      (\<exists>new n.
         TxLog r' = TxLog r @ new \<and>
         run_steps tx (update_steps (shepherd_of rf r) mp ks) (Tx r) =
           (new, Tx r', out) \<and>
         map fst new = take (length new) (update_calls (shepherd_of rf r) mp ks) \<and>
         (out = Return None \<longrightarrow>
            map fst new = update_calls (shepherd_of rf r) mp ks) \<and>
         map snd new = replicate n None @ (case out of Return (Some e) \<Rightarrow> [Some e] | _ \<Rightarrow> []) \<and>
         run_calls tx (map fst new) (Tx r) = (map snd new, Tx r') \<and>
         Updated r' = Updated r + of_nat n \<and> Added r' = Added r \<and> Deleted r' = Deleted r \<and>
         Stored r' = Stored r \<and> Shepherd r' = Shepherd r))"
proof (intro conjI impI)
  assume run: "Collection_add tx ks mp r = (err, r')"
  from Collection_add_log [OF run] obtain new n where
    r': "r' = r\<lparr>Tx := Tx r', Added := Added r + of_nat n, TxLog := TxLog r @ new\<rparr>"
    and pl: "phase_log tx (add_calls mp ks) (Tx r) (Return err) new n (Tx r')"
    by blast
  from phase_log_run_steps [OF pl]
  have rs: "run_steps tx (add_steps mp ks) (Tx r) = (new, Tx r', Return err)"
    by (simp add: add_steps_def)
  have full: "err = None \<longrightarrow> map fst new = add_calls mp ks"
  proof
    assume "err = None"
    with pl have "phase_log tx (add_calls mp ks) (Tx r) (Return None) new n (Tx r')" by simp
    from phase_log_complete [OF this] show "map fst new = add_calls mp ks" by simp
  qed
  from phase_log_answers [OF pl]
  have "map snd new = replicate n None @ (case err of None \<Rightarrow> [] | Some e \<Rightarrow> [Some e])"
    by (simp split: option.splits)
  with add_frame [OF r'] phase_log_run [OF pl] phase_log_prefix [OF pl] rs full
  show "\<exists>new n.
           TxLog r' = TxLog r @ new \<and>
           run_steps tx (add_steps mp ks) (Tx r) =
             (new, Tx r', Return err) \<and>
           map fst new = take (length new) (add_calls mp ks) \<and>
           (err = None \<longrightarrow>
              map fst new = add_calls mp ks) \<and>
           map snd new = replicate n None @ (case err of None \<Rightarrow> [] | Some e \<Rightarrow> [Some e]) \<and>
           run_calls tx (map fst new) (Tx r) = (map snd new, Tx r') \<and>
           Added r' = Added r + of_nat n \<and> Updated r' = Updated r \<and> Deleted r' = Deleted r \<and>
           Stored r' = Stored r \<and> Shepherd r' = Shepherd r"
    by blast
next
  assume run: "Collection_delete tx ks mp r = (err, r')"
  from Collection_delete_log [OF run] obtain new n where
    r': "r' = r\<lparr>Tx := Tx r', Deleted := Deleted r + of_nat n, TxLog := TxLog r @ new\<rparr>"
    and pl: "phase_log tx (delete_calls mp ks) (Tx r) (Return err) new n (Tx r')"
    by blast
  from phase_log_run_steps [OF pl]
  have rs: "run_steps tx (delete_steps mp ks) (Tx r) = (new, Tx r', Return err)"
    by (simp add: delete_steps_def)
  have full: "err = None \<longrightarrow> map fst new = delete_calls mp ks"
  proof
    assume "err = None"
    with pl have "phase_log tx (delete_calls mp ks) (Tx r) (Return None) new n (Tx r')" by simp
    from phase_log_complete [OF this] show "map fst new = delete_calls mp ks" by simp
  qed
  from phase_log_answers [OF pl]
  have "map snd new = replicate n None @ (case err of None \<Rightarrow> [] | Some e \<Rightarrow> [Some e])"
    by (simp split: option.splits)
  with delete_frame [OF r'] phase_log_run [OF pl] phase_log_prefix [OF pl] rs full
  show "\<exists>new n.
           TxLog r' = TxLog r @ new \<and>
           run_steps tx (delete_steps mp ks) (Tx r) =
             (new, Tx r', Return err) \<and>
           map fst new = take (length new) (delete_calls mp ks) \<and>
           (err = None \<longrightarrow>
              map fst new = delete_calls mp ks) \<and>
           map snd new = replicate n None @ (case err of None \<Rightarrow> [] | Some e \<Rightarrow> [Some e]) \<and>
           run_calls tx (map fst new) (Tx r) = (map snd new, Tx r') \<and>
           Deleted r' = Deleted r + of_nat n \<and> Added r' = Added r \<and> Updated r' = Updated r \<and>
           Stored r' = Stored r \<and> Shepherd r' = Shepherd r"
    by blast
next
  assume run: "Collection_update rf tx ks mp r = (out, r')"
  from Collection_update_log [OF run] obtain new n where
    r': "r' = r\<lparr>Tx := Tx r', Updated := Updated r + of_nat n, TxLog := TxLog r @ new\<rparr>"
    and pl: "phase_log tx (update_calls (shepherd_of rf r) mp ks) (Tx r) out new n (Tx r')"
    by blast
  note f = update_frame [OF r']
  from Collection_update_steps [OF run] obtain new' where
    "TxLog r' = TxLog r @ new'"
    and "run_steps tx (update_steps (shepherd_of rf r) mp ks) (Tx r) = (new', Tx r', out)"
    by blast
  with f have rs: "run_steps tx (update_steps (shepherd_of rf r) mp ks) (Tx r) = (new, Tx r', out)"
    by simp
  have full: "out = Return None \<longrightarrow> map fst new = update_calls (shepherd_of rf r) mp ks"
  proof
    assume "out = Return None"
    with pl have "phase_log tx (update_calls (shepherd_of rf r) mp ks) (Tx r) (Return None)
        new n (Tx r')"
      by simp
    from phase_log_complete [OF this]
    show "map fst new = update_calls (shepherd_of rf r) mp ks" by simp
  qed
  from f phase_log_run [OF pl] phase_log_prefix [OF pl] phase_log_answers [OF pl] rs full
  show "\<exists>new n.
           TxLog r' = TxLog r @ new \<and>
           run_steps tx (update_steps (shepherd_of rf r) mp ks) (Tx r) =
             (new, Tx r', out) \<and>
           map fst new = take (length new) (update_calls (shepherd_of rf r) mp ks) \<and>
           (out = Return None \<longrightarrow>
              map fst new = update_calls (shepherd_of rf r) mp ks) \<and>
           map snd new = replicate n None @ (case out of Return (Some e) \<Rightarrow> [Some e] | _ \<Rightarrow> []) \<and>
           run_calls tx (map fst new) (Tx r) = (map snd new, Tx r') \<and>
           Updated r' = Updated r + of_nat n \<and> Added r' = Added r \<and> Deleted r' = Deleted r \<and>
           Stored r' = Stored r \<and> Shepherd r' = Shepherd r"
    by blast
qed

theorem phase_aborts_at_first_error_witness:
  "Collection_add table_Tx ka_sample (disposition_map sample_start desired_sample) phase_start = (None, add_end) \<and>
   (\<exists>new n.
      TxLog add_end = TxLog phase_start @ new \<and>
      run_steps table_Tx (add_steps (disposition_map sample_start desired_sample) ka_sample) (Tx phase_start) =
        (new, Tx add_end, Return (None :: error option)) \<and>
      map fst new = take (length new) (add_calls (disposition_map sample_start desired_sample) ka_sample) \<and>
      ((None :: error option) = None \<longrightarrow>
         map fst new = add_calls (disposition_map sample_start desired_sample) ka_sample) \<and>
      map snd new = replicate n None @ (case (None :: error option) of None \<Rightarrow> [] | Some e \<Rightarrow> [Some e]) \<and>
      run_calls table_Tx (map fst new) (Tx phase_start) = (map snd new, Tx add_end) \<and>
      Added add_end = Added phase_start + of_nat n \<and> Updated add_end = Updated phase_start \<and> Deleted add_end = Deleted phase_start \<and>
      Stored add_end = Stored phase_start \<and> Shepherd add_end = Shepherd phase_start) \<and>
   Collection_delete table_Tx [''1'', ''2'', ''3''] (disposition_map sample_start []) delete_start = (Some (Error ''not found''), delete_end) \<and>
   (\<exists>new n.
      TxLog delete_end = TxLog delete_start @ new \<and>
      run_steps table_Tx (delete_steps (disposition_map sample_start []) [''1'', ''2'', ''3'']) (Tx delete_start) =
        (new, Tx delete_end, Return (Some (Error ''not found''))) \<and>
      map fst new = take (length new) (delete_calls (disposition_map sample_start []) [''1'', ''2'', ''3'']) \<and>
      (Some (Error ''not found'') = None \<longrightarrow>
         map fst new = delete_calls (disposition_map sample_start []) [''1'', ''2'', ''3'']) \<and>
      map snd new = replicate n None @ (case Some (Error ''not found'') of None \<Rightarrow> [] | Some e \<Rightarrow> [Some e]) \<and>
      run_calls table_Tx (map fst new) (Tx delete_start) = (map snd new, Tx delete_end) \<and>
      Deleted delete_end = Deleted delete_start + of_nat n \<and> Added delete_end = Added delete_start \<and> Updated delete_end = Updated delete_start \<and>
      Stored delete_end = Stored delete_start \<and> Shepherd delete_end = Shepherd delete_start) \<and>
   Collection_update reflect_int table_Tx ku_sample (disposition_map sample_start desired_sample) phase_start = (Return None, update_end) \<and>
   (\<exists>new n.
      TxLog update_end = TxLog phase_start @ new \<and>
      run_steps table_Tx (update_steps (shepherd_of reflect_int phase_start) (disposition_map sample_start desired_sample) ku_sample) (Tx phase_start) =
        (new, Tx update_end, Return None) \<and>
      map fst new = take (length new) (update_calls (shepherd_of reflect_int phase_start) (disposition_map sample_start desired_sample) ku_sample) \<and>
      (Return None = Return None \<longrightarrow>
         map fst new = update_calls (shepherd_of reflect_int phase_start) (disposition_map sample_start desired_sample) ku_sample) \<and>
      map snd new = replicate n None @ (case Return None of Return (Some e) \<Rightarrow> [Some e] | _ \<Rightarrow> []) \<and>
      run_calls table_Tx (map fst new) (Tx phase_start) = (map snd new, Tx update_end) \<and>
      Updated update_end = Updated phase_start + of_nat n \<and> Added update_end = Added phase_start \<and> Deleted update_end = Deleted phase_start \<and>
      Stored update_end = Stored phase_start \<and> Shepherd update_end = Shepherd phase_start)"
proof -
  note t = phase_aborts_at_first_error
  from t [THEN conjunct1, rule_format, OF add_sample]
  have a: "\<exists>new n.
      TxLog add_end = TxLog phase_start @ new \<and>
      run_steps table_Tx (add_steps (disposition_map sample_start desired_sample) ka_sample) (Tx phase_start) =
        (new, Tx add_end, Return (None :: error option)) \<and>
      map fst new = take (length new) (add_calls (disposition_map sample_start desired_sample) ka_sample) \<and>
      ((None :: error option) = None \<longrightarrow>
         map fst new = add_calls (disposition_map sample_start desired_sample) ka_sample) \<and>
      map snd new = replicate n None @ (case (None :: error option) of None \<Rightarrow> [] | Some e \<Rightarrow> [Some e]) \<and>
      run_calls table_Tx (map fst new) (Tx phase_start) = (map snd new, Tx add_end) \<and>
      Added add_end = Added phase_start + of_nat n \<and> Updated add_end = Updated phase_start \<and> Deleted add_end = Deleted phase_start \<and>
      Stored add_end = Stored phase_start \<and> Shepherd add_end = Shepherd phase_start" .
  from t [THEN conjunct2, THEN conjunct1, rule_format, OF delete_sample]
  have d: "\<exists>new n.
      TxLog delete_end = TxLog delete_start @ new \<and>
      run_steps table_Tx (delete_steps (disposition_map sample_start []) [''1'', ''2'', ''3'']) (Tx delete_start) =
        (new, Tx delete_end, Return (Some (Error ''not found''))) \<and>
      map fst new = take (length new) (delete_calls (disposition_map sample_start []) [''1'', ''2'', ''3'']) \<and>
      (Some (Error ''not found'') = None \<longrightarrow>
         map fst new = delete_calls (disposition_map sample_start []) [''1'', ''2'', ''3'']) \<and>
      map snd new = replicate n None @ (case Some (Error ''not found'') of None \<Rightarrow> [] | Some e \<Rightarrow> [Some e]) \<and>
      run_calls table_Tx (map fst new) (Tx delete_start) = (map snd new, Tx delete_end) \<and>
      Deleted delete_end = Deleted delete_start + of_nat n \<and> Added delete_end = Added delete_start \<and> Updated delete_end = Updated delete_start \<and>
      Stored delete_end = Stored delete_start \<and> Shepherd delete_end = Shepherd delete_start" .
  from t [THEN conjunct2, THEN conjunct2, rule_format, OF update_sample]
  have u: "\<exists>new n.
      TxLog update_end = TxLog phase_start @ new \<and>
      run_steps table_Tx (update_steps (shepherd_of reflect_int phase_start) (disposition_map sample_start desired_sample) ku_sample) (Tx phase_start) =
        (new, Tx update_end, Return None) \<and>
      map fst new = take (length new) (update_calls (shepherd_of reflect_int phase_start) (disposition_map sample_start desired_sample) ku_sample) \<and>
      (Return None = Return None \<longrightarrow>
         map fst new = update_calls (shepherd_of reflect_int phase_start) (disposition_map sample_start desired_sample) ku_sample) \<and>
      map snd new = replicate n None @ (case Return None of Return (Some e) \<Rightarrow> [Some e] | _ \<Rightarrow> []) \<and>
      run_calls table_Tx (map fst new) (Tx phase_start) = (map snd new, Tx update_end) \<and>
      Updated update_end = Updated phase_start + of_nat n \<and> Added update_end = Added phase_start \<and> Deleted update_end = Deleted phase_start \<and>
      Stored update_end = Stored phase_start \<and> Shepherd update_end = Shepherd phase_start" .
  from add_sample a delete_sample d update_sample u show ?thesis by (intro conjI)
qed

text \<open>
  Claim C8, as the code has it. The update phase takes the shepherd of the collection, the
  default one when none is set, and for an entry with both models calls
  \<^verbatim>\<open>Equals(desired, stored)\<close>, the desired model first. If that returns true the entry is
  passed over: no call on the transaction, no counter changed. If it returns false,
  \<^verbatim>\<open>Update(stored, desired)\<close> merges into the stored model, the stored model so merged is
  handed to the transaction's \<^verbatim>\<open>Update\<close>, and \<^verbatim>\<open>Updated\<close> grows by one when that
  succeeds. Over the whole phase the calls logged are the first ones of the plan
  \<open>update_calls\<close>, all of it when the phase returns \<^verbatim>\<open>nil\<close>, and \<^verbatim>\<open>Updated\<close> grows by
  the number of calls that succeeded.
\<close>

theorem update_phase_rule:
  "(Collection_update rf tx ks mp r = (out, r') \<longrightarrow>
      (\<exists>new n. TxLog r' = TxLog r @ new \<and>
         map fst new = take (length new) (update_calls (shepherd_of rf r) mp ks) \<and>
         (out = Return None \<longrightarrow>
            map fst new = update_calls (shepherd_of rf r) mp ks \<and> n = length new) \<and>
         map snd new =
           replicate n None @ (case out of Return (Some e) \<Rightarrow> [Some e] | _ \<Rightarrow> []) \<and>
         Updated r' = Updated r + of_nat n)) \<and>
   shepherd_of rf r = (case Shepherd r of None \<Rightarrow> DefaultShepherd rf | Some shepherd \<Rightarrow> shepherd) \<and>
   (mp k = Some dpn \<and> stored dpn = Some st \<and> desired dpn = Some d \<longrightarrow>
      (Shepherd_Equals (shepherd_of rf r) d st = Inr True \<longrightarrow>
         update_call (shepherd_of rf r) mp k = [] \<and>
         Collection_update rf tx (k # ks) mp r = Collection_update rf tx ks mp r) \<and>
      (Shepherd_Equals (shepherd_of rf r) d st = Inr False \<and>
       Shepherd_Update (shepherd_of rf r) st d = Inr st' \<longrightarrow>
         update_call (shepherd_of rf r) mp k = [CallUpdate st'] \<and>
         (\<forall>t. Tx_Update tx st' (Tx r) = (None, t) \<longrightarrow>
            Collection_update rf tx (k # ks) mp r =
              Collection_update rf tx ks mp
                (r\<lparr>Tx := t, Updated := Updated r + 1,
                   TxLog := TxLog r @ [(CallUpdate st', None)]\<rparr>))))"
proof (intro conjI impI allI)
  assume "Collection_update rf tx ks mp r = (out, r')"
  from Collection_update_log [OF this] obtain new n where
    r': "r' = r\<lparr>Tx := Tx r', Updated := Updated r + of_nat n, TxLog := TxLog r @ new\<rparr>"
    and pl: "phase_log tx (update_calls (shepherd_of rf r) mp ks) (Tx r) out new n (Tx r')"
    by blast
  have "out = Return None \<longrightarrow>
      map fst new = update_calls (shepherd_of rf r) mp ks \<and> n = length new"
  proof
    assume "out = Return None"
    with pl have "phase_log tx (update_calls (shepherd_of rf r) mp ks) (Tx r) (Return None) new n (Tx r')"
      by simp
    then show "map fst new = update_calls (shepherd_of rf r) mp ks \<and> n = length new"
      by (rule phase_log_complete)
  qed
  with update_frame [OF r'] phase_log_prefix [OF pl] phase_log_answers [OF pl]
  show "\<exists>new n. TxLog r' = TxLog r @ new \<and>
         map fst new = take (length new) (update_calls (shepherd_of rf r) mp ks) \<and>
         (out = Return None \<longrightarrow>
            map fst new = update_calls (shepherd_of rf r) mp ks \<and> n = length new) \<and>
         map snd new =
           replicate n None @ (case out of Return (Some e) \<Rightarrow> [Some e] | _ \<Rightarrow> []) \<and>
         Updated r' = Updated r + of_nat n"
    by blast
next
  show "shepherd_of rf r = (case Shepherd r of None \<Rightarrow> DefaultShepherd rf | Some shepherd \<Rightarrow> shepherd)"
    by (simp add: shepherd_of_def)
next
  assume "mp k = Some dpn \<and> stored dpn = Some st \<and> desired dpn = Some d"
    and "Shepherd_Equals (shepherd_of rf r) d st = Inr True"
  then show "update_call (shepherd_of rf r) mp k = []"
    and "Collection_update rf tx (k # ks) mp r = Collection_update rf tx ks mp r"
    by (simp_all add: update_call_def Collection_update_def shepherd_of_def)
next
  assume "mp k = Some dpn \<and> stored dpn = Some st \<and> desired dpn = Some d"
    and "Shepherd_Equals (shepherd_of rf r) d st = Inr False \<and>
       Shepherd_Update (shepherd_of rf r) st d = Inr st'"
  then show "update_call (shepherd_of rf r) mp k = [CallUpdate st']"
    by (simp add: update_call_def)
next
  fix t
  assume "mp k = Some dpn \<and> stored dpn = Some st \<and> desired dpn = Some d"
    and "Shepherd_Equals (shepherd_of rf r) d st = Inr False \<and>
       Shepherd_Update (shepherd_of rf r) st d = Inr st'"
    and "Tx_Update tx st' (Tx r) = (None, t)"
  then show "Collection_update rf tx (k # ks) mp r =
              Collection_update rf tx ks mp
                (r\<lparr>Tx := t, Updated := Updated r + 1,
                   TxLog := TxLog r @ [(CallUpdate st', None)]\<rparr>)"
    by (simp add: Collection_update_def shepherd_of_def)
qed

theorem update_phase_rule_witness:
  "Collection_update reflect_int table_Tx [''2'', ''4'', ''1'', ''3'']
     (disposition_map (collection_of stored_sample (table_of stored_sample) None) desired_sample)
     (collection_of ([] :: int Model list) (table_of stored_sample) None) =
     (Return None,
      \<lparr>Stored = [], Tx = table_of [person ''1'' 1 0 10 20, person ''2'' 1 0 11 21, person ''3'' 1 0 12 23], Shepherd = None,
        Added = 0, Updated = 1, Deleted = 0,
        TxLog = [(CallUpdate (person ''3'' 1 0 12 23), None)]\<rparr>) \<and>
   update_calls (shepherd_of reflect_int (collection_of ([] :: int Model list) (table_of stored_sample) None))
     (disposition_map (collection_of stored_sample (table_of stored_sample) None) desired_sample) [''2'', ''4'', ''1'', ''3''] =
     [CallUpdate (person ''3'' 1 0 12 23)] \<and>
   Shepherd_Equals (shepherd_of reflect_int (collection_of ([] :: int Model list) (table_of stored_sample) None)) (person ''2'' 0 5 11 21) (person ''2'' 1 0 11 21) = Inr True \<and>
   update_call (shepherd_of reflect_int (collection_of ([] :: int Model list) (table_of stored_sample) None))
     (disposition_map (collection_of stored_sample (table_of stored_sample) None) desired_sample) ''2'' = [] \<and>
   Collection_update reflect_int table_Tx (''2'' # [''3''])
     (disposition_map (collection_of stored_sample (table_of stored_sample) None) desired_sample)
     (collection_of ([] :: int Model list) (table_of stored_sample) None) =
   Collection_update reflect_int table_Tx [''3'']
     (disposition_map (collection_of stored_sample (table_of stored_sample) None) desired_sample)
     (collection_of ([] :: int Model list) (table_of stored_sample) None) \<and>
   Shepherd_Equals (shepherd_of reflect_int (collection_of ([] :: int Model list) (table_of stored_sample) None)) (person ''3'' 0 5 12 23) (person ''3'' 1 0 12 22) = Inr False \<and>
   Shepherd_Update (shepherd_of reflect_int (collection_of ([] :: int Model list) (table_of stored_sample) None)) (person ''3'' 1 0 12 22) (person ''3'' 0 5 12 23) =
     Inr (person ''3'' 1 0 12 23) \<and>
   update_call (shepherd_of reflect_int (collection_of ([] :: int Model list) (table_of stored_sample) None))
     (disposition_map (collection_of stored_sample (table_of stored_sample) None) desired_sample) ''3'' =
     [CallUpdate (person ''3'' 1 0 12 23)] \<and>
   Collection_update reflect_int table_Tx (''3'' # [])
     (disposition_map (collection_of stored_sample (table_of stored_sample) None) desired_sample)
     (collection_of ([] :: int Model list) (table_of stored_sample) None) =
   Collection_update reflect_int table_Tx []
     (disposition_map (collection_of stored_sample (table_of stored_sample) None) desired_sample)
     ((collection_of ([] :: int Model list) (table_of stored_sample) None)
        \<lparr>Tx := (table_of stored_sample)(''3'' \<mapsto> person ''3'' 1 0 12 23),
         Updated := Updated (collection_of ([] :: int Model list) (table_of stored_sample) None) + 1,
         TxLog := TxLog (collection_of ([] :: int Model list) (table_of stored_sample) None) @
           [(CallUpdate (person ''3'' 1 0 12 23), None)]\<rparr>)"
proof -
  let ?r = "collection_of ([] :: int Model list) (table_of stored_sample) None"
  let ?mp = "disposition_map (collection_of stored_sample (table_of stored_sample) None) desired_sample"
  note t = update_phase_rule
  from t [THEN conjunct1, rule_format, OF update_run] obtain new n where
    log: "TxLog (\<lparr>Stored = [], Tx = table_of [person ''1'' 1 0 10 20, person ''2'' 1 0 11 21, person ''3'' 1 0 12 23], Shepherd = None,
        Added = 0, Updated = 1, Deleted = 0,
        TxLog = [(CallUpdate (person ''3'' 1 0 12 23), None)]\<rparr>) = TxLog ?r @ new"
    and full: "Return None = Return None \<longrightarrow>
      map fst new = update_calls (shepherd_of reflect_int ?r) ?mp [''2'', ''4'', ''1'', ''3''] \<and> n = length new"
    by blast
  from log have "new = [(CallUpdate (person ''3'' 1 0 12 23), None)]"
    by (simp add: collection_of_fields)
  with full have plan: "update_calls (shepherd_of reflect_int ?r) ?mp [''2'', ''4'', ''1'', ''3''] = [CallUpdate (person ''3'' 1 0 12 23)]"
    by simp
  have sh: "shepherd_of reflect_int ?r = DefaultShepherd reflect_int"
    by (simp add: shepherd_of_collection_of)
  have e2: "Shepherd_Equals (shepherd_of reflect_int ?r) (person ''2'' 0 5 11 21) (person ''2'' 1 0 11 21) = Inr True"
    by (simp add: sh DefaultShepherd_def sample_equal_2)
  have k2: "?mp ''2'' = Some \<lparr>stored = Some (person ''2'' 1 0 11 21), desired = Some (person ''2'' 0 5 11 21)\<rparr> \<and>
      stored \<lparr>stored = Some (person ''2'' 1 0 11 21), desired = Some (person ''2'' 0 5 11 21)\<rparr> = Some (person ''2'' 1 0 11 21) \<and>
      desired \<lparr>stored = Some (person ''2'' 1 0 11 21), desired = Some (person ''2'' 0 5 11 21)\<rparr> = Some (person ''2'' 0 5 11 21)"
    by (simp add: sample_map)
  note t2 = t [where rf = reflect_int and mp = ?mp and k = "''2''" and r = ?r and tx = table_Tx and ks = "[''3'']",
      THEN conjunct2, THEN conjunct2, THEN mp, OF k2, THEN conjunct1, THEN mp, OF e2]
  have e3: "Shepherd_Equals (shepherd_of reflect_int ?r) (person ''3'' 0 5 12 23) (person ''3'' 1 0 12 22) = Inr False \<and>
      Shepherd_Update (shepherd_of reflect_int ?r) (person ''3'' 1 0 12 22) (person ''3'' 0 5 12 23) = Inr (person ''3'' 1 0 12 23)"
    by (simp add: sh DefaultShepherd_def sample_equal_3 sample_update_3)
  have k3: "?mp ''3'' = Some \<lparr>stored = Some (person ''3'' 1 0 12 22), desired = Some (person ''3'' 0 5 12 23)\<rparr> \<and>
      stored \<lparr>stored = Some (person ''3'' 1 0 12 22), desired = Some (person ''3'' 0 5 12 23)\<rparr> = Some (person ''3'' 1 0 12 22) \<and>
      desired \<lparr>stored = Some (person ''3'' 1 0 12 22), desired = Some (person ''3'' 0 5 12 23)\<rparr> = Some (person ''3'' 0 5 12 23)"
    by (simp add: sample_map)
  note t3 = t [where rf = reflect_int and mp = ?mp and k = "''3''" and r = ?r and tx = table_Tx and ks = "[]",
      THEN conjunct2, THEN conjunct2, THEN mp, OF k3, THEN conjunct2, THEN mp, OF e3]
  have tx3: "Tx_Update table_Tx (person ''3'' 1 0 12 23) (Tx ?r) =
      (None, (table_of stored_sample)(''3'' \<mapsto> person ''3'' 1 0 12 23))"
    by (simp add: table_Tx_def collection_of_fields table_of_def stored_sample_def)
  from update_run plan e2 t2 [THEN conjunct1] t2 [THEN conjunct2]
    e3 [THEN conjunct1] e3 [THEN conjunct2] t3 [THEN conjunct1]
    t3 [THEN conjunct2, rule_format, OF tx3]
  show ?thesis by (intro conjI)
qed

text \<open>
  Against claim C8 as stated. A shepherd deems the stored model up to date when its
  \<^verbatim>\<open>Rev\<close> is not below the desired one's. The stored model has \<^verbatim>\<open>Rev\<close> 2 and the desired
  one \<^verbatim>\<open>Rev\<close> 1, so \<^verbatim>\<open>Equals(stored, desired)\<close> is true and the entry would be passed
  over; the update phase calls \<^verbatim>\<open>Equals(desired, stored)\<close>, which is false, merges and
  calls the transaction.
\<close>

theorem Equals_argument_order_counterexample:
  "Shepherd_Equals up_to_date_shepherd (person ''1'' 2 0 10 20) (person ''1'' 1 0 10 99) =
     Inr True \<and>
   fst (Collection_update reflect_int table_Tx [''1'']
     [''1'' \<mapsto> \<lparr>stored = Some (person ''1'' 2 0 10 20),
                 desired = Some (person ''1'' 1 0 10 99)\<rparr>]
     (collection_of [] (table_of [person ''1'' 2 0 10 20]) (Some up_to_date_shepherd))) =
     Return None \<and>
   Updated (snd (Collection_update reflect_int table_Tx [''1'']
     [''1'' \<mapsto> \<lparr>stored = Some (person ''1'' 2 0 10 20),
                 desired = Some (person ''1'' 1 0 10 99)\<rparr>]
     (collection_of [] (table_of [person ''1'' 2 0 10 20]) (Some up_to_date_shepherd)))) = 1 \<and>
   TxLog (snd (Collection_update reflect_int table_Tx [''1'']
     [''1'' \<mapsto> \<lparr>stored = Some (person ''1'' 2 0 10 20),
                 desired = Some (person ''1'' 1 0 10 99)\<rparr>]
     (collection_of [] (table_of [person ''1'' 2 0 10 20]) (Some up_to_date_shepherd)))) =
     [(CallUpdate (person ''1'' 1 0 10 99), None)]"
  by (simp add: Collection_update_def collection_of_def up_to_date_shepherd_def revision_of_def
      table_Tx_def table_of_def sample_defs)

section \<open>Running twice\<close>

subsection \<open>The table behind the transaction\<close>

lemma table_call_insert:
  "st (Pk d) = None \<Longrightarrow> Tx_call table_Tx (CallInsert d) st = (None, st(Pk d \<mapsto> d))"
  by (simp add: Tx_call_def table_Tx_def)

lemma table_call_delete:
  "st (Pk s) \<noteq> None \<Longrightarrow> Tx_call table_Tx (CallDelete s) st = (None, st(Pk s := None))"
  by (auto simp: Tx_call_def table_Tx_def)

lemma table_call_update:
  "st (Pk s) \<noteq> None \<Longrightarrow> Tx_call table_Tx (CallUpdate s) st = (None, st(Pk s \<mapsto> s))"
  by (auto simp: Tx_call_def table_Tx_def)

lemma table_of_last:
  "distinct (map Pk ms) \<Longrightarrow> table_of ms k = last_with_pk k ms"
proof (induction ms)
  case Nil
  then show ?case by (simp add: table_of_def)
next
  case (Cons m ms)
  then have IH: "table_of ms k = last_with_pk k ms" and notin: "Pk m \<notin> Pk ` set ms"
    by simp_all
  show ?case
  proof (cases "Pk m = k")
    case True
    with notin have "last_with_pk k ms = None" by (simp add: last_with_pk_None)
    with True show ?thesis by (simp add: table_of_def)
  next
    case False
    with IH show ?thesis by (simp add: table_of_def split: option.splits)
  qed
qed

lemma lists_table_lookup: "lists_table ms st \<Longrightarrow> st k = last_with_pk k ms"
  by (simp add: lists_table_def table_of_last)

subsection \<open>Entries of the disposition map\<close>

lemma delete_call_cases:
  "delete_call mp k = [] \<or>
   (\<exists>dpn s. mp k = Some dpn \<and> stored dpn = Some s \<and> desired dpn = None \<and>
      delete_call mp k = [CallDelete s])"
  by (auto simp: delete_call_def split: option.splits)

lemma add_call_cases:
  "add_call mp k = [] \<or>
   (\<exists>dpn d. mp k = Some dpn \<and> desired dpn = Some d \<and> stored dpn = None \<and>
      add_call mp k = [CallInsert d])"
  by (auto simp: add_call_def split: option.splits)

subsection \<open>The phases on the table\<close>

lemma delete_on_table:
  assumes "distinct ks"
    and "\<forall>k \<in> set ks. \<forall>s. delete_call mp k = [CallDelete s] \<longrightarrow> Pk s = k \<and> Tx r k \<noteq> None"
  shows "\<exists>r'. Collection_delete table_Tx ks mp r = (None, r') \<and>
           (\<forall>k. Tx r' k = (if k \<in> set ks \<and> delete_call mp k \<noteq> [] then None else Tx r k))"
  using assms
proof (induction ks arbitrary: r)
  case Nil
  then show ?case by simp
next
  case (Cons k ks)
  from Cons.prems have dist: "distinct ks" and knot: "k \<notin> set ks" by simp_all
  from delete_call_cases [of mp k] show ?case
  proof
    assume skip: "delete_call mp k = []"
    with Collection_delete_cases [of mp k table_Tx ks r]
    have step: "Collection_delete table_Tx (k # ks) mp r = Collection_delete table_Tx ks mp r"
      by auto
    from Cons.prems have "\<forall>k \<in> set ks. \<forall>s. delete_call mp k = [CallDelete s] \<longrightarrow>
        Pk s = k \<and> Tx r k \<noteq> None"
      by simp
    from Cons.IH [OF dist this] obtain r' where
      "Collection_delete table_Tx ks mp r = (None, r')"
      "\<forall>j. Tx r' j = (if j \<in> set ks \<and> delete_call mp j \<noteq> [] then None else Tx r j)"
      by blast
    with step skip show ?thesis by auto
  next
    assume "\<exists>dpn s. mp k = Some dpn \<and> stored dpn = Some s \<and> desired dpn = None \<and>
      delete_call mp k = [CallDelete s]"
    then obtain dpn s where dpn: "mp k = Some dpn" "stored dpn = Some s" "desired dpn = None"
      and c: "delete_call mp k = [CallDelete s]"
      by blast
    from Cons.prems c have pk: "Pk s = k" and there: "Tx r k \<noteq> None" by simp_all
    let ?t = "(Tx r)(k := None)"
    let ?r1 = "r\<lparr>Tx := ?t, Deleted := Deleted r + 1, TxLog := TxLog r @ [(CallDelete s, None)]\<rparr>"
    from there pk have "Tx_Delete table_Tx s (Tx r) = (None, ?t)"
      using table_call_delete [of "Tx r" s] by (simp add: Tx_call_def)
    with dpn have step: "Collection_delete table_Tx (k # ks) mp r =
        Collection_delete table_Tx ks mp ?r1"
      by simp
    have "\<forall>j \<in> set ks. \<forall>s. delete_call mp j = [CallDelete s] \<longrightarrow>
        Pk s = j \<and> Tx ?r1 j \<noteq> None"
      using Cons.prems knot by auto
    from Cons.IH [OF dist this] obtain r' where
      "Collection_delete table_Tx ks mp ?r1 = (None, r')"
      "\<forall>j. Tx r' j = (if j \<in> set ks \<and> delete_call mp j \<noteq> [] then None else Tx ?r1 j)"
      by blast
    with step c show ?thesis by auto
  qed
qed

lemma add_on_table:
  assumes "distinct ks"
    and "\<forall>k \<in> set ks. \<forall>d. add_call mp k = [CallInsert d] \<longrightarrow> Pk d = k \<and> Tx r k = None"
  shows "\<exists>r'. Collection_add table_Tx ks mp r = (None, r') \<and>
           (\<forall>k d. k \<in> set ks \<and> add_call mp k = [CallInsert d] \<longrightarrow> Tx r' k = Some d) \<and>
           (\<forall>k. k \<notin> set ks \<or> add_call mp k = [] \<longrightarrow> Tx r' k = Tx r k)"
  using assms
proof (induction ks arbitrary: r)
  case Nil
  then show ?case by simp
next
  case (Cons k ks)
  from Cons.prems have dist: "distinct ks" and knot: "k \<notin> set ks" by simp_all
  from add_call_cases [of mp k] show ?case
  proof
    assume skip: "add_call mp k = []"
    with Collection_add_cases [of mp k table_Tx ks r]
    have step: "Collection_add table_Tx (k # ks) mp r = Collection_add table_Tx ks mp r"
      by auto
    from Cons.prems have "\<forall>k \<in> set ks. \<forall>d. add_call mp k = [CallInsert d] \<longrightarrow>
        Pk d = k \<and> Tx r k = None"
      by simp
    from Cons.IH [OF dist this] obtain r' where
      "Collection_add table_Tx ks mp r = (None, r')"
      "\<forall>j d. j \<in> set ks \<and> add_call mp j = [CallInsert d] \<longrightarrow> Tx r' j = Some d"
      "\<forall>j. j \<notin> set ks \<or> add_call mp j = [] \<longrightarrow> Tx r' j = Tx r j"
      by blast
    with step skip show ?thesis by auto
  next
    assume "\<exists>dpn d. mp k = Some dpn \<and> desired dpn = Some d \<and> stored dpn = None \<and>
      add_call mp k = [CallInsert d]"
    then obtain dpn d where dpn: "mp k = Some dpn" "desired dpn = Some d" "stored dpn = None"
      and c: "add_call mp k = [CallInsert d]"
      by blast
    from Cons.prems c have pk: "Pk d = k" and free: "Tx r k = None" by simp_all
    let ?t = "(Tx r)(k \<mapsto> d)"
    let ?r1 = "r\<lparr>Tx := ?t, Added := Added r + 1, TxLog := TxLog r @ [(CallInsert d, None)]\<rparr>"
    from free pk have "Tx_Insert table_Tx d (Tx r) = (None, ?t)"
      using table_call_insert [of "Tx r" d] by (simp add: Tx_call_def)
    with dpn have step: "Collection_add table_Tx (k # ks) mp r =
        Collection_add table_Tx ks mp ?r1"
      by simp
    have "\<forall>j \<in> set ks. \<forall>d. add_call mp j = [CallInsert d] \<longrightarrow>
        Pk d = j \<and> Tx ?r1 j = None"
      using Cons.prems knot by auto
    from Cons.IH [OF dist this] obtain r' where
      "Collection_add table_Tx ks mp ?r1 = (None, r')"
      "\<forall>j d. j \<in> set ks \<and> add_call mp j = [CallInsert d] \<longrightarrow> Tx r' j = Some d"
      "\<forall>j. j \<notin> set ks \<or> add_call mp j = [] \<longrightarrow> Tx r' j = Tx ?r1 j"
      by blast
    with step c knot show ?thesis by auto
  qed
qed

lemma update_on_table:
  assumes "distinct ks"
    and "\<forall>k \<in> set ks. \<forall>dpn s d.
           mp k = Some dpn \<and> stored dpn = Some s \<and> desired dpn = Some d \<longrightarrow>
           Pk s = k \<and> Tx r k \<noteq> None \<and>
           (Shepherd_Equals sh d s = Inr True \<or>
            (Shepherd_Equals sh d s = Inr False \<and>
             (\<exists>s'. Shepherd_Update sh s d = Inr s' \<and> Pk s' = k)))"
  shows "\<exists>r'. update_loop table_Tx sh ks mp r = (Return None, r') \<and>
           (\<forall>k s'. k \<in> set ks \<and> update_call sh mp k = [CallUpdate s'] \<longrightarrow> Tx r' k = Some s') \<and>
           (\<forall>k. k \<notin> set ks \<or> update_call sh mp k = [] \<longrightarrow> Tx r' k = Tx r k)"
  using assms
proof (induction ks arbitrary: r)
  case Nil
  then show ?case by simp
next
  case (Cons k ks)
  from Cons.prems have dist: "distinct ks" and knot: "k \<notin> set ks" by simp_all
  have rest: "\<forall>j \<in> set ks. \<forall>dpn s d.
           mp j = Some dpn \<and> stored dpn = Some s \<and> desired dpn = Some d \<longrightarrow>
           Pk s = j \<and> Tx r j \<noteq> None \<and>
           (Shepherd_Equals sh d s = Inr True \<or>
            (Shepherd_Equals sh d s = Inr False \<and>
             (\<exists>s'. Shepherd_Update sh s d = Inr s' \<and> Pk s' = j)))"
  proof
    fix j assume "j \<in> set ks"
    then have "j \<in> set (k # ks)" by simp
    with Cons.prems(2) show "\<forall>dpn s d.
           mp j = Some dpn \<and> stored dpn = Some s \<and> desired dpn = Some d \<longrightarrow>
           Pk s = j \<and> Tx r j \<noteq> None \<and>
           (Shepherd_Equals sh d s = Inr True \<or>
            (Shepherd_Equals sh d s = Inr False \<and>
             (\<exists>s'. Shepherd_Update sh s d = Inr s' \<and> Pk s' = j)))"
      by blast
  qed
  from Cons.IH [OF dist rest] obtain r0 where
    r0: "update_loop table_Tx sh ks mp r = (Return None, r0)"
      "\<forall>j s'. j \<in> set ks \<and> update_call sh mp j = [CallUpdate s'] \<longrightarrow> Tx r0 j = Some s'"
      "\<forall>j. j \<notin> set ks \<or> update_call sh mp j = [] \<longrightarrow> Tx r0 j = Tx r j"
    by blast
  show ?case
  proof (cases "\<exists>dpn s d. mp k = Some dpn \<and> stored dpn = Some s \<and> desired dpn = Some d")
    case False
    then have "update_call sh mp k = []"
      and "update_loop table_Tx sh (k # ks) mp r = update_loop table_Tx sh ks mp r"
      by (auto simp: update_call_def split: option.splits)
    with r0 show ?thesis by auto
  next
    case True
    then obtain dpn s d where
      dpn: "mp k = Some dpn" "stored dpn = Some s" "desired dpn = Some d"
      by blast
    with Cons.prems have pk: "Pk s = k" and there: "Tx r k \<noteq> None"
      and alt: "Shepherd_Equals sh d s = Inr True \<or>
            (Shepherd_Equals sh d s = Inr False \<and>
             (\<exists>s'. Shepherd_Update sh s d = Inr s' \<and> Pk s' = k))"
      by auto
    from alt show ?thesis
    proof
      assume eq: "Shepherd_Equals sh d s = Inr True"
      with dpn have "update_call sh mp k = []"
        and "update_loop table_Tx sh (k # ks) mp r = update_loop table_Tx sh ks mp r"
        by (simp_all add: update_call_def)
      with r0 show ?thesis by auto
    next
      assume "Shepherd_Equals sh d s = Inr False \<and>
             (\<exists>s'. Shepherd_Update sh s d = Inr s' \<and> Pk s' = k)"
      then obtain s' where neq: "Shepherd_Equals sh d s = Inr False"
        and upd: "Shepherd_Update sh s d = Inr s'" and pk': "Pk s' = k"
        by blast
      from dpn neq upd have c: "update_call sh mp k = [CallUpdate s']"
        by (simp add: update_call_def)
      let ?t = "(Tx r)(k \<mapsto> s')"
      let ?r1 = "r\<lparr>Tx := ?t, Updated := Updated r + 1,
                    TxLog := TxLog r @ [(CallUpdate s', None)]\<rparr>"
      from there pk' have "Tx_Update table_Tx s' (Tx r) = (None, ?t)"
        using table_call_update [of "Tx r" s'] by (simp add: Tx_call_def)
      with dpn neq upd have step: "update_loop table_Tx sh (k # ks) mp r =
          update_loop table_Tx sh ks mp ?r1"
        by simp
      have "\<forall>j \<in> set ks. \<forall>dpn s d.
           mp j = Some dpn \<and> stored dpn = Some s \<and> desired dpn = Some d \<longrightarrow>
           Pk s = j \<and> Tx ?r1 j \<noteq> None \<and>
           (Shepherd_Equals sh d s = Inr True \<or>
            (Shepherd_Equals sh d s = Inr False \<and>
             (\<exists>s'. Shepherd_Update sh s d = Inr s' \<and> Pk s' = j)))"
        using rest knot by auto
      from Cons.IH [OF dist this] obtain r' where
        "update_loop table_Tx sh ks mp ?r1 = (Return None, r')"
        "\<forall>j s'. j \<in> set ks \<and> update_call sh mp j = [CallUpdate s'] \<longrightarrow> Tx r' j = Some s'"
        "\<forall>j. j \<notin> set ks \<or> update_call sh mp j = [] \<longrightarrow> Tx r' j = Tx ?r1 j"
        by blast
      with step c knot show ?thesis by auto
    qed
  qed
qed

subsection \<open>Phases with nothing to do\<close>

lemma delete_noop:
  "\<forall>k \<in> set ks. delete_call mp k = [] \<Longrightarrow> Collection_delete tx ks mp r = (None, r)"
proof (induction ks)
  case Nil
  show ?case by simp
next
  case (Cons k ks)
  then have "delete_call mp k = []" by simp
  with Collection_delete_cases [of mp k tx ks r]
  have "Collection_delete tx (k # ks) mp r = Collection_delete tx ks mp r" by auto
  with Cons show ?case by simp
qed

lemma add_noop:
  "\<forall>k \<in> set ks. add_call mp k = [] \<Longrightarrow> Collection_add tx ks mp r = (None, r)"
proof (induction ks)
  case Nil
  show ?case by simp
next
  case (Cons k ks)
  then have "add_call mp k = []" by simp
  with Collection_add_cases [of mp k tx ks r]
  have "Collection_add tx (k # ks) mp r = Collection_add tx ks mp r" by auto
  with Cons show ?case by simp
qed

lemma update_noop:
  "\<forall>k \<in> set ks. \<forall>dpn s d.
      mp k = Some dpn \<and> stored dpn = Some s \<and> desired dpn = Some d \<longrightarrow>
      Shepherd_Equals sh d s = Inr True \<Longrightarrow>
   update_loop tx sh ks mp r = (Return None, r)"
proof (induction ks)
  case Nil
  show ?case by simp
next
  case (Cons k ks)
  have "\<forall>j \<in> set ks. \<forall>dpn s d.
      mp j = Some dpn \<and> stored dpn = Some s \<and> desired dpn = Some d \<longrightarrow>
      Shepherd_Equals sh d s = Inr True"
  proof
    fix j assume "j \<in> set ks"
    then have "j \<in> set (k # ks)" by simp
    with Cons.prems show "\<forall>dpn s d.
      mp j = Some dpn \<and> stored dpn = Some s \<and> desired dpn = Some d \<longrightarrow>
      Shepherd_Equals sh d s = Inr True"
      by blast
  qed
  then have IH: "update_loop tx sh ks mp r = (Return None, r)" by (rule Cons.IH)
  have "update_loop tx sh (k # ks) mp r = update_loop tx sh ks mp r"
  proof (cases "\<exists>dpn s d. mp k = Some dpn \<and> stored dpn = Some s \<and> desired dpn = Some d")
    case False
    then show ?thesis by (auto split: option.splits)
  next
    case True
    then obtain dpn s d where
      dpn: "mp k = Some dpn" "stored dpn = Some s" "desired dpn = Some d"
      by blast
    with Cons.prems have "Shepherd_Equals sh d s = Inr True" by simp
    with dpn show ?thesis by simp
  qed
  with IH show ?case by simp
qed

subsection \<open>The second run\<close>

lemma converged_None:
  assumes "converged sh ds st" and "last_with_pk k ds = None"
  shows "st k = None"
proof -
  from assms(1) have "case last_with_pk k ds of
             None \<Rightarrow> st k = None
           | Some d \<Rightarrow> (\<exists>x. st k = Some x \<and> Shepherd_Equals sh d x = Inr True)"
    unfolding converged_def by (rule spec)
  with assms(2) show ?thesis by simp
qed

lemma converged_Some:
  assumes "converged sh ds st" and "last_with_pk k ds = Some d"
  shows "\<exists>x. st k = Some x \<and> Shepherd_Equals sh d x = Inr True"
proof -
  from assms(1) have "case last_with_pk k ds of
             None \<Rightarrow> st k = None
           | Some d \<Rightarrow> (\<exists>x. st k = Some x \<and> Shepherd_Equals sh d x = Inr True)"
    unfolding converged_def by (rule spec)
  with assms(2) show ?thesis by simp
qed

lemma convergedI:
  assumes "\<And>k. last_with_pk k ds = None \<Longrightarrow> st k = None"
    and "\<And>k d. last_with_pk k ds = Some d \<Longrightarrow>
           \<exists>x. st k = Some x \<and> Shepherd_Equals sh d x = Inr True"
  shows "converged sh ds st"
  unfolding converged_def
proof
  fix k
  show "case last_with_pk k ds of
             None \<Rightarrow> st k = None
           | Some d \<Rightarrow> (\<exists>x. st k = Some x \<and> Shepherd_Equals sh d x = Inr True)"
    using assms [of k] by (cases "last_with_pk k ds") simp_all
qed

lemma second_run:
  assumes conv: "converged (shepherd_of rf r) ds (Tx r)"
    and lists: "lists_table (Stored r) (Tx r)"
  shows "Collection_Reconcile rf tx kd ka ku ds r = (Return None, r\<lparr>Stored := []\<rparr>)"
proof -
  define mp where "mp = disposition_map r ds"
  have disp: "Collection_dispositions r ds = (mp, r\<lparr>Stored := []\<rparr>)"
    by (simp add: mp_def disposition_map_def Collection_dispositions_def)
  have row: "Tx r k = last_with_pk k (Stored r)" for k
    by (rule lists_table_lookup [OF lists])
  have entry: "mp k = None \<or>
      (\<exists>x d. mp k = Some \<lparr>stored = Some x, desired = Some d\<rparr> \<and>
         Shepherd_Equals (shepherd_of rf r) d x = Inr True)" for k
  proof (cases "last_with_pk k ds")
    case None
    with conv have "Tx r k = None" by (rule converged_None)
    with None row [of k] have "mp k = None" by (simp add: mp_def disposition_map_lookup)
    then show ?thesis by simp
  next
    case (Some d)
    from converged_Some [OF conv Some] obtain x where x: "Tx r k = Some x"
      "Shepherd_Equals (shepherd_of rf r) d x = Inr True"
      by blast
    with Some row [of k] have "mp k = Some \<lparr>stored = Some x, desired = Some d\<rparr>"
      by (simp add: mp_def disposition_map_lookup)
    with x show ?thesis by blast
  qed
  have d: "Collection_delete tx kd mp (r\<lparr>Stored := []\<rparr>) = (None, r\<lparr>Stored := []\<rparr>)"
  proof (rule delete_noop, rule ballI)
    fix k show "delete_call mp k = []"
      using entry [of k] by (auto simp: delete_call_def)
  qed
  have a: "Collection_add tx ka mp (r\<lparr>Stored := []\<rparr>) = (None, r\<lparr>Stored := []\<rparr>)"
  proof (rule add_noop, rule ballI)
    fix k show "add_call mp k = []"
      using entry [of k] by (auto simp: add_call_def)
  qed
  have "update_loop tx (shepherd_of rf r) ku mp (r\<lparr>Stored := []\<rparr>) = (Return None, r\<lparr>Stored := []\<rparr>)"
  proof (rule update_noop, intro ballI allI impI)
    fix k dpn s d
    assume "mp k = Some dpn \<and> stored dpn = Some s \<and> desired dpn = Some d"
    with entry [of k] show "Shepherd_Equals (shepherd_of rf r) d s = Inr True" by auto
  qed
  then have u: "Collection_update rf tx ku mp (r\<lparr>Stored := []\<rparr>) = (Return None, r\<lparr>Stored := []\<rparr>)"
    by (simp add: Collection_update_def shepherd_of_def)
  show ?thesis
    by (simp add: Collection_Reconcile_def disp d a u)
qed

subsection \<open>The first run\<close>

lemma first_run:
  assumes lists: "lists_table (Stored r) (Tx r)"
    and od: "range_order (disposition_map r ds) kd"
    and oa: "range_order (disposition_map r ds) ka"
    and ou: "range_order (disposition_map r ds) ku"
    and st: "settles (shepherd_of rf r) (Stored r) ds"
  shows "\<exists>r'. Collection_Reconcile rf table_Tx kd ka ku ds r = (Return None, r') \<and>
           Stored r' = [] \<and> Shepherd r' = Shepherd r \<and>
           converged (shepherd_of rf r) ds (Tx r')"
proof -
  define mp where "mp = disposition_map r ds"
  define r0 where "r0 = r\<lparr>Stored := []\<rparr>"
  define sh where "sh = shepherd_of rf r"
  have disp: "Collection_dispositions r ds = (mp, r0)"
    by (simp add: mp_def r0_def disposition_map_def Collection_dispositions_def)
  have row: "Tx r0 k = last_with_pk k (Stored r)" for k
    using lists_table_lookup [OF lists, of k] by (simp add: r0_def)
  have lookup: "mp k =
     (if last_with_pk k (Stored r) = None \<and> last_with_pk k ds = None then None
      else Some \<lparr>stored = last_with_pk k (Stored r), desired = last_with_pk k ds\<rparr>)" for k
    unfolding mp_def by (rule disposition_map_lookup)
  have in_dom: "k \<in> dom mp" if "last_with_pk k (Stored r) \<noteq> None \<or> last_with_pk k ds \<noteq> None" for k
    using that lookup [of k] by (auto simp: dom_def)
  from od oa ou have dist: "distinct kd" "distinct ka" "distinct ku"
    and cover: "set kd = dom mp" "set ka = dom mp" "set ku = dom mp"
    by (simp_all add: range_order_def mp_def)
  have pkS: "Pk s = k \<and> s \<in> set (Stored r)" if "last_with_pk k (Stored r) = Some s" for k s
    using last_with_pk_Some [OF that] by simp
  have pkD: "Pk d = k \<and> d \<in> set ds" if "last_with_pk k ds = Some d" for k d
    using last_with_pk_Some [OF that] by simp
  have dcall: "delete_call mp k =
     (case last_with_pk k (Stored r) of
        None \<Rightarrow> []
      | Some s \<Rightarrow> (case last_with_pk k ds of None \<Rightarrow> [CallDelete s] | Some d \<Rightarrow> []))" for k
    by (simp add: delete_call_def lookup split: option.splits)
  have acall: "add_call mp k =
     (case last_with_pk k ds of
        None \<Rightarrow> []
      | Some d \<Rightarrow> (case last_with_pk k (Stored r) of None \<Rightarrow> [CallInsert d] | Some s \<Rightarrow> []))" for k
    by (simp add: add_call_def lookup split: option.splits)
  have ucall_none: "update_call sh mp k = []"
    if "last_with_pk k (Stored r) = None \<or> last_with_pk k ds = None" for k
    using that by (auto simp: update_call_def lookup)
  have alt: "Shepherd_Equals sh d s = Inr True \<or>
        (Shepherd_Equals sh d s = Inr False \<and>
         (\<exists>s'. Shepherd_Update sh s d = Inr s' \<and> Pk s' = k \<and>
               Shepherd_Equals sh d s' = Inr True))"
    if "last_with_pk k (Stored r) = Some s" "last_with_pk k ds = Some d" for k s d
  proof -
    from pkS [OF that(1)] pkD [OF that(2)]
    have "s \<in> set (Stored r)" "d \<in> set ds" "Pk s = Pk d" "Pk s = k" by simp_all
    with st show ?thesis unfolding settles_def sh_def by blast
  qed
  have refl: "Shepherd_Equals sh d d = Inr True" if "last_with_pk k ds = Some d" for k d
    using st pkD [OF that] unfolding settles_def sh_def by blast

  \<comment> \<open>the delete phase\<close>
  have "\<forall>k \<in> set kd. \<forall>s. delete_call mp k = [CallDelete s] \<longrightarrow> Pk s = k \<and> Tx r0 k \<noteq> None"
  proof (intro ballI allI impI)
    fix k s assume "delete_call mp k = [CallDelete s]"
    then have "last_with_pk k (Stored r) = Some s"
      by (simp add: dcall split: option.splits)
    with pkS [OF this] row [of k] show "Pk s = k \<and> Tx r0 k \<noteq> None" by simp
  qed
  from delete_on_table [OF dist(1) this] obtain r1 where
    d: "Collection_delete table_Tx kd mp r0 = (None, r1)"
    and t1: "\<forall>k. Tx r1 k = (if k \<in> set kd \<and> delete_call mp k \<noteq> [] then None else Tx r0 k)"
    by blast
  from Collection_delete_log [OF d] obtain dl n1 where
    "r1 = r0\<lparr>Tx := Tx r1, Deleted := Deleted r0 + of_nat n1, TxLog := TxLog r0 @ dl\<rparr>"
    by blast
  note f1 = delete_frame [OF this]

  \<comment> \<open>the add phase\<close>
  have "\<forall>k \<in> set ka. \<forall>d. add_call mp k = [CallInsert d] \<longrightarrow> Pk d = k \<and> Tx r1 k = None"
  proof (intro ballI allI impI)
    fix k d assume "add_call mp k = [CallInsert d]"
    then have D: "last_with_pk k ds = Some d" and S: "last_with_pk k (Stored r) = None"
      by (simp_all add: acall split: option.splits)
    from S have "delete_call mp k = []" by (simp add: dcall)
    with t1 row [of k] S have "Tx r1 k = None" by simp
    with pkD [OF D] show "Pk d = k \<and> Tx r1 k = None" by simp
  qed
  from add_on_table [OF dist(2) this] obtain r2 where
    a: "Collection_add table_Tx ka mp r1 = (None, r2)"
    and t2a: "\<forall>k d. k \<in> set ka \<and> add_call mp k = [CallInsert d] \<longrightarrow> Tx r2 k = Some d"
    and t2b: "\<forall>k. k \<notin> set ka \<or> add_call mp k = [] \<longrightarrow> Tx r2 k = Tx r1 k"
    by blast
  from Collection_add_log [OF a] obtain al n2 where
    "r2 = r1\<lparr>Tx := Tx r2, Added := Added r1 + of_nat n2, TxLog := TxLog r1 @ al\<rparr>"
    by blast
  note f2 = add_frame [OF this]

  \<comment> \<open>the update phase\<close>
  have kept: "Tx r2 k = Some s"
    if "last_with_pk k (Stored r) = Some s" "last_with_pk k ds = Some d" for k s d
  proof -
    from that have "delete_call mp k = []" "add_call mp k = []"
      by (simp_all add: dcall acall)
    with t1 t2b row [of k] that(1) show ?thesis by simp
  qed
  have "\<forall>k \<in> set ku. \<forall>dpn s d.
           mp k = Some dpn \<and> stored dpn = Some s \<and> desired dpn = Some d \<longrightarrow>
           Pk s = k \<and> Tx r2 k \<noteq> None \<and>
           (Shepherd_Equals sh d s = Inr True \<or>
            (Shepherd_Equals sh d s = Inr False \<and>
             (\<exists>s'. Shepherd_Update sh s d = Inr s' \<and> Pk s' = k)))"
  proof (intro ballI allI impI)
    fix k dpn s d
    assume "mp k = Some dpn \<and> stored dpn = Some s \<and> desired dpn = Some d"
    then have S: "last_with_pk k (Stored r) = Some s" and D: "last_with_pk k ds = Some d"
      using lookup [of k] by (auto split: if_splits)
    from alt [OF S D] kept [OF S D] pkS [OF S]
    show "Pk s = k \<and> Tx r2 k \<noteq> None \<and>
           (Shepherd_Equals sh d s = Inr True \<or>
            (Shepherd_Equals sh d s = Inr False \<and>
             (\<exists>s'. Shepherd_Update sh s d = Inr s' \<and> Pk s' = k)))"
      by auto
  qed
  from update_on_table [OF dist(3) this] obtain r3 where
    u0: "update_loop table_Tx sh ku mp r2 = (Return None, r3)"
    and t3a: "\<forall>k s'. k \<in> set ku \<and> update_call sh mp k = [CallUpdate s'] \<longrightarrow> Tx r3 k = Some s'"
    and t3b: "\<forall>k. k \<notin> set ku \<or> update_call sh mp k = [] \<longrightarrow> Tx r3 k = Tx r2 k"
    by blast
  have sh2: "shepherd_of rf r2 = sh"
    using f1 f2 by (simp add: shepherd_of_def sh_def r0_def)
  then have u: "Collection_update rf table_Tx ku mp r2 = (Return None, r3)"
    using u0 by (simp add: Collection_update_def shepherd_of_def)
  from Collection_update_log [OF u] obtain ul n3 where
    "r3 = r2\<lparr>Tx := Tx r3, Updated := Updated r2 + of_nat n3, TxLog := TxLog r2 @ ul\<rparr>"
    by blast
  note f3 = update_frame [OF this]
  have res: "Collection_Reconcile rf table_Tx kd ka ku ds r = (Return None, r3)"
    by (simp add: Collection_Reconcile_def disp d a u)
  have frame: "Stored r3 = []" "Shepherd r3 = Shepherd r"
    using f1 f2 f3 by (simp_all add: r0_def)

  \<comment> \<open>the table afterwards\<close>
  have conv: "converged sh ds (Tx r3)"
  proof (rule convergedI)
    fix k assume D: "last_with_pk k ds = None"
    then have uc: "update_call sh mp k = []" and ac: "add_call mp k = []"
      by (simp_all add: ucall_none acall)
    show "Tx r3 k = None"
    proof (cases "last_with_pk k (Stored r)")
      case None
      then have "delete_call mp k = []" by (simp add: dcall)
      with t1 t2b t3b uc ac row [of k] None show ?thesis by simp
    next
      case (Some s)
      with D have "delete_call mp k \<noteq> []" by (simp add: dcall)
      moreover from Some in_dom [of k] cover(1) have "k \<in> set kd" by simp
      ultimately have "Tx r1 k = None" using t1 by simp
      with t2b t3b uc ac show ?thesis by simp
    qed
  next
    fix k d assume D: "last_with_pk k ds = Some d"
    from D in_dom [of k] cover have k: "k \<in> set ka" "k \<in> set ku" by simp_all
    show "\<exists>x. Tx r3 k = Some x \<and> Shepherd_Equals sh d x = Inr True"
    proof (cases "last_with_pk k (Stored r)")
      case None
      with D have "add_call mp k = [CallInsert d]" by (simp add: acall)
      with t2a k have "Tx r2 k = Some d" by blast
      moreover from None have "update_call sh mp k = []" by (simp add: ucall_none)
      ultimately have "Tx r3 k = Some d" using t3b by simp
      with refl [OF D] show ?thesis by blast
    next
      case (Some s)
      from lookup [of k] Some D
      have e: "mp k = Some \<lparr>stored = Some s, desired = Some d\<rparr>" by simp
      from alt [OF Some D] show ?thesis
      proof
        assume eq: "Shepherd_Equals sh d s = Inr True"
        with e have "update_call sh mp k = []" by (simp add: update_call_def)
        with t3b kept [OF Some D] have "Tx r3 k = Some s" by simp
        with eq show ?thesis by blast
      next
        assume "Shepherd_Equals sh d s = Inr False \<and>
         (\<exists>s'. Shepherd_Update sh s d = Inr s' \<and> Pk s' = k \<and>
               Shepherd_Equals sh d s' = Inr True)"
        then obtain s' where neq: "Shepherd_Equals sh d s = Inr False"
          and upd: "Shepherd_Update sh s d = Inr s'"
          and eq': "Shepherd_Equals sh d s' = Inr True"
          by blast
        from e neq upd have "update_call sh mp k = [CallUpdate s']"
          by (simp add: update_call_def)
        with t3a k have "Tx r3 k = Some s'" by blast
        with eq' show ?thesis by blast
      qed
    qed
  qed
  from res frame conv show ?thesis unfolding sh_def by blast
qed

subsection \<open>The default shepherd settles models of the same type\<close>

lemma DefaultShepherd_Equals_refl:
  assumes "self_equal rf d"
  shows "DefaultShepherd_Equals rf d d = Inr True"
proof -
  have "\<not> mismatch rf (fieldList d) (fieldList d) j" for j
  proof (cases "j < length (fieldList d)")
    case False
    then show ?thesis by (simp add: mismatch_def)
  next
    case True
    then have "fieldList d ! j \<in> set (fieldList d)" by simp
    with assms show ?thesis unfolding self_equal_def mismatch_def by blast
  qed
  then show ?thesis by (simp add: DefaultShepherd_Equals_char)
qed

lemma DefaultShepherd_settles_pair:
  assumes ty: "same_type s d" and refl: "self_equal rf d"
  shows "DefaultShepherd_Equals rf d s = Inr True \<or>
         (DefaultShepherd_Equals rf d s = Inr False \<and>
          (\<exists>s'. DefaultShepherd_Update rf s d = Inr s' \<and> Pk s' = Pk s \<and>
                DefaultShepherd_Equals rf d s' = Inr True))"
proof -
  from same_type_length [OF ty] have len: "length (fieldList s) = length (fieldList d)" .
  show ?thesis
  proof (cases "\<exists>j. mismatch rf (fieldList d) (fieldList s) j")
    case False
    with len have "DefaultShepherd_Equals rf d s = Inr True"
      by (simp add: DefaultShepherd_Equals_char)
    then show ?thesis by simp
  next
    case True
    then have neq: "DefaultShepherd_Equals rf d s = Inr False"
      by (simp add: DefaultShepherd_Equals_char)
    have nb: "\<forall>j. \<not> blocked rf (fieldList s) (fieldList d) j"
      using same_type_not_blocked [OF ty] by blast
    from DefaultShepherd_Update_char [OF nb] obtain s' where
      u: "DefaultShepherd_Update rf s d = Inr s'" "Pk s' = Pk s"
        "length (fieldList s') = length (fieldList s)"
        "\<forall>j < length (fieldList s).
           fieldList s' ! j = merged_field (fieldList s) (fieldList d) 0 j"
      by blast
    have "\<not> mismatch rf (fieldList d) (fieldList s') j" for j
    proof (cases "j < length (fieldList s)")
      case False
      with u(3) show ?thesis by (simp add: mismatch_def)
    next
      case j: True
      have ign: "ignored (fieldList s ! j) = ignored (fieldList d ! j)"
        by (rule ignored_field_kind [OF same_type_kind [OF ty j]])
      from u(4) j
      have m: "fieldList s' ! j = merged_field (fieldList s) (fieldList d) 0 j" by blast
      show ?thesis
      proof (cases "ignored (fieldList d ! j)")
        case True
        then show ?thesis by (simp add: mismatch_def)
      next
        case False
        from j len have "fieldList d ! j \<in> set (fieldList d)" by simp
        with refl False
        have "DeepEqual rf (Value (fieldList d ! j)) (Value (fieldList d ! j))"
          unfolding self_equal_def by blast
        with m ign False show ?thesis by (simp add: mismatch_def merged_field_def)
      qed
    qed
    with u(3) len have "DefaultShepherd_Equals rf d s' = Inr True"
      by (simp add: DefaultShepherd_Equals_char)
    with neq u(1,2) show ?thesis by blast
  qed
qed

lemma DefaultShepherd_settles:
  assumes "\<forall>s \<in> set ms. \<forall>d \<in> set ds. Pk s = Pk d \<longrightarrow> same_type s d"
    and "\<forall>d \<in> set ds. self_equal rf d"
  shows "settles (DefaultShepherd rf) ms ds"
  unfolding settles_def
proof (intro conjI ballI impI)
  fix d assume "d \<in> set ds"
  with assms(2) have "self_equal rf d" by blast
  then show "Shepherd_Equals (DefaultShepherd rf) d d = Inr True"
    by (simp add: DefaultShepherd_def DefaultShepherd_Equals_refl)
next
  fix s d assume "s \<in> set ms" and d: "d \<in> set ds" and "Pk s = Pk d"
  with assms(1) have "same_type s d" by blast
  moreover from assms(2) d have "self_equal rf d" by blast
  ultimately
  show "Shepherd_Equals (DefaultShepherd rf) d s = Inr True \<or>
        (Shepherd_Equals (DefaultShepherd rf) d s = Inr False \<and>
         (\<exists>s'. Shepherd_Update (DefaultShepherd rf) s d = Inr s' \<and> Pk s' = Pk s \<and>
               Shepherd_Equals (DefaultShepherd rf) d s' = Inr True))"
    using DefaultShepherd_settles_pair [of s d rf] by (simp add: DefaultShepherd_def)
qed

text \<open>
  Claim C9, as the code has it. Let the stored sequence list the table behind a
  transaction that persists, and let the shepherd in use settle the stored with the desired
  models; the default shepherd does when the models paired under a key are of the same type
  and \<^verbatim>\<open>reflect.DeepEqual\<close> holds of every compared value of a desired model and itself.
  Then \<^verbatim>\<open>Reconcile\<close> returns \<^verbatim>\<open>nil\<close>, and a second \<^verbatim>\<open>Reconcile\<close> with the same
  desired sequence, on a stored sequence that lists the table as the first run left it,
  returns \<^verbatim>\<open>nil\<close> and leaves the collection as it was: the table, the three counters
  and the log of calls are unchanged.
\<close>

theorem Reconcile_twice:
  assumes "lists_table (Stored r) (Tx r)"
    and "range_order (disposition_map r ds) kd"
    and "range_order (disposition_map r ds) ka"
    and "range_order (disposition_map r ds) ku"
    and "settles (shepherd_of rf r) (Stored r) ds \<or>
         (Shepherd r = None \<and>
          (\<forall>s \<in> set (Stored r). \<forall>d \<in> set ds. Pk s = Pk d \<longrightarrow> same_type s d) \<and>
          (\<forall>d \<in> set ds. self_equal rf d))"
  shows "\<exists>r1. Collection_Reconcile rf table_Tx kd ka ku ds r = (Return None, r1) \<and>
           (\<forall>ms kd' ka' ku'. lists_table ms (Tx r1) \<longrightarrow>
              Collection_Reconcile rf table_Tx kd' ka' ku' ds (r1\<lparr>Stored := ms\<rparr>) =
                (Return None, r1))"
proof -
  from assms(5) have "settles (shepherd_of rf r) (Stored r) ds"
  proof
    assume "settles (shepherd_of rf r) (Stored r) ds"
    then show ?thesis .
  next
    assume "Shepherd r = None \<and>
          (\<forall>s \<in> set (Stored r). \<forall>d \<in> set ds. Pk s = Pk d \<longrightarrow> same_type s d) \<and>
          (\<forall>d \<in> set ds. self_equal rf d)"
    then have sh: "shepherd_of rf r = DefaultShepherd rf"
      and ty: "\<forall>s \<in> set (Stored r). \<forall>d \<in> set ds. Pk s = Pk d \<longrightarrow> same_type s d"
      and refl: "\<forall>d \<in> set ds. self_equal rf d"
      by (simp_all add: shepherd_of_def)
    from DefaultShepherd_settles [OF ty refl] sh show ?thesis by simp
  qed
  from first_run [OF assms(1-4) this] obtain r1 where
    run: "Collection_Reconcile rf table_Tx kd ka ku ds r = (Return None, r1)"
    and frame: "Stored r1 = []" "Shepherd r1 = Shepherd r"
    and conv: "converged (shepherd_of rf r) ds (Tx r1)"
    by blast
  have "Collection_Reconcile rf table_Tx kd' ka' ku' ds (r1\<lparr>Stored := ms\<rparr>) = (Return None, r1)"
    if ms: "lists_table ms (Tx r1)" for ms kd' ka' ku'
  proof -
    let ?r = "r1\<lparr>Stored := ms\<rparr>"
    from frame(2) have "shepherd_of rf ?r = shepherd_of rf r" by (simp add: shepherd_of_def)
    with conv have c: "converged (shepherd_of rf ?r) ds (Tx ?r)" by simp
    from ms have l: "lists_table (Stored ?r) (Tx ?r)" by simp
    from frame(1) have "?r\<lparr>Stored := []\<rparr> = r1" by simp
    with second_run [OF c l, of table_Tx kd' ka' ku'] show ?thesis by simp
  qed
  with run show ?thesis by blast
qed

theorem Reconcile_twice_witness:
  "lists_table (Stored sample_start) (Tx sample_start) \<and>
   range_order (disposition_map sample_start desired_sample) kd_sample \<and>
   range_order (disposition_map sample_start desired_sample) ka_sample \<and>
   range_order (disposition_map sample_start desired_sample) ku_sample \<and>
   Shepherd sample_start = None \<and>
   same_type (person ''2'' 1 0 11 21) (person ''2'' 0 5 11 21) \<and>
   same_type (person ''3'' 1 0 12 22) (person ''3'' 0 5 12 23) \<and>
   self_equal reflect_int (person ''2'' 0 5 11 21) \<and>
   self_equal reflect_int (person ''3'' 0 5 12 23) \<and>
   self_equal reflect_int (person ''4'' 0 5 13 24) \<and>
   Collection_Reconcile reflect_int table_Tx kd_sample ka_sample ku_sample desired_sample
     sample_start = (Return None, sample_end) \<and>
   lists_table [person ''4'' 0 5 13 24, person ''2'' 1 0 11 21, person ''3'' 1 0 12 23]
     (Tx sample_end) \<and>
   Collection_Reconcile reflect_int table_Tx [''3'', ''2'', ''4''] [''2'', ''3'', ''4'']
     [''4'', ''3'', ''2''] desired_sample
     (sample_end\<lparr>Stored :=
        [person ''4'' 0 5 13 24, person ''2'' 1 0 11 21, person ''3'' 1 0 12 23]\<rparr>) =
     (Return None, sample_end)"
proof -
  let ?ms = "[person ''4'' 0 5 13 24, person ''2'' 1 0 11 21, person ''3'' 1 0 12 23]"
  have h1: "lists_table (Stored sample_start) (Tx sample_start)"
    by (simp add: sample_start_def collection_of_fields lists_table_def stored_sample_def)
  have ord: "range_order (disposition_map sample_start desired_sample) kd_sample"
    "range_order (disposition_map sample_start desired_sample) ka_sample"
    "range_order (disposition_map sample_start desired_sample) ku_sample"
    by (auto simp: range_order_def sample_start_def sample_map kd_sample_def ka_sample_def
        ku_sample_def)
  have sh: "Shepherd sample_start = None"
    by (simp add: sample_start_def collection_of_fields)
  have ty: "\<forall>s \<in> set (Stored sample_start). \<forall>d \<in> set desired_sample.
      Pk s = Pk d \<longrightarrow> same_type s d"
    by (simp add: sample_start_def collection_of_fields stored_sample_def desired_sample_def
        same_type_def field_kind_def sample_defs)
  have refl: "\<forall>d \<in> set desired_sample. self_equal reflect_int d"
    by (simp add: self_equal_def reflect_int_def)
  from sh ty refl
  have h5: "settles (shepherd_of reflect_int sample_start) (Stored sample_start) desired_sample \<or>
      (Shepherd sample_start = None \<and>
       (\<forall>s \<in> set (Stored sample_start). \<forall>d \<in> set desired_sample.
          Pk s = Pk d \<longrightarrow> same_type s d) \<and>
       (\<forall>d \<in> set desired_sample. self_equal reflect_int d))"
    by blast
  from Reconcile_twice [OF h1 ord h5] obtain r1 where
    run: "Collection_Reconcile reflect_int table_Tx kd_sample ka_sample ku_sample
       desired_sample sample_start = (Return None, r1)"
    and again: "\<forall>ms kd' ka' ku'. lists_table ms (Tx r1) \<longrightarrow>
       Collection_Reconcile reflect_int table_Tx kd' ka' ku' desired_sample
         (r1\<lparr>Stored := ms\<rparr>) = (Return None, r1)"
    by blast
  from run reconcile_sample have r1: "r1 = sample_end" by simp
  have l2: "lists_table ?ms (Tx sample_end)"
    by (simp add: sample_end_def lists_table_def table_of_def fun_eq_iff)
  with again [unfolded r1] have two:
    "Collection_Reconcile reflect_int table_Tx [''3'', ''2'', ''4''] [''2'', ''3'', ''4'']
       [''4'', ''3'', ''2''] desired_sample (sample_end\<lparr>Stored := ?ms\<rparr>) =
       (Return None, sample_end)"
    by blast
  have same: "same_type (person ''2'' 1 0 11 21) (person ''2'' 0 5 11 21)"
    "same_type (person ''3'' 1 0 12 22) (person ''3'' 0 5 12 23)"
    using ty by (simp_all add: sample_start_def collection_of_fields stored_sample_def
        desired_sample_def)
  have self: "self_equal reflect_int (person ''2'' 0 5 11 21)"
    "self_equal reflect_int (person ''3'' 0 5 12 23)"
    "self_equal reflect_int (person ''4'' 0 5 13 24)"
    using refl by (simp_all add: desired_sample_def)
  from h1 ord sh same self reconcile_sample l2 two show ?thesis by (intro conjI)
qed

text \<open>
  Against claim C9 as stated, which supposes a transaction that persists and the same
  desired sequence, and nothing more. Three second runs that are not idle:
  \<^item> With a shepherd that never deems two models equal, the second run updates the one
    stored model again, although the stored sequence lists the table: \<^verbatim>\<open>Updated\<close> grows
    by one and a call is made.
  \<^item> So it does with the default shepherd, on a stored and a desired model of the same
    type, when the compared field holds a NaN: \<^verbatim>\<open>reflect.DeepEqual\<close> tells the NaN apart
    from itself in the first run and in every run after it.
  \<^item> When the second run is made on the collection as the first left it, its stored
    sequence drained and so listing nothing of the table, it takes every desired model for
    a new one, and its first \<^verbatim>\<open>Insert\<close> fails.
  And with a stored and a desired model of different types under one key there are no two
  runs to compare: the default shepherd panics in the first, which does not return.
\<close>

theorem restless_second_run_counterexample:
  "lists_table [person ''2'' 1 0 11 21] (table_of [person ''2'' 1 0 11 21]) \<and>
   Collection_Reconcile reflect_int table_Tx [''2''] [''2''] [''2''] [person ''2'' 1 0 11 21]
     (collection_of [person ''2'' 1 0 11 21] (table_of [person ''2'' 1 0 11 21])
        (Some restless_shepherd)) =
   (Return None,
    \<lparr>Stored = [], Tx = table_of [person ''2'' 1 0 11 21], Shepherd = Some restless_shepherd,
     Added = 0, Updated = 1, Deleted = 0,
     TxLog = [(CallUpdate (person ''2'' 1 0 11 21), None)]\<rparr>) \<and>
   Collection_Reconcile reflect_int table_Tx [''2''] [''2''] [''2''] [person ''2'' 1 0 11 21]
     \<lparr>Stored = [person ''2'' 1 0 11 21], Tx = table_of [person ''2'' 1 0 11 21],
      Shepherd = Some restless_shepherd, Added = 0, Updated = 1, Deleted = 0,
      TxLog = [(CallUpdate (person ''2'' 1 0 11 21), None)]\<rparr> =
   (Return None,
    \<lparr>Stored = [], Tx = table_of [person ''2'' 1 0 11 21], Shepherd = Some restless_shepherd,
     Added = 0, Updated = 2, Deleted = 0,
     TxLog = [(CallUpdate (person ''2'' 1 0 11 21), None),
              (CallUpdate (person ''2'' 1 0 11 21), None)]\<rparr>) \<and>
   lists_table [reading ''1'' NaN] (table_of [reading ''1'' NaN]) \<and>
   same_type (reading ''1'' NaN) (reading ''1'' NaN) \<and>
   \<not> self_equal reflect_go (reading ''1'' NaN) \<and>
   Collection_Reconcile reflect_go table_Tx [''1''] [''1''] [''1''] [reading ''1'' NaN]
     (collection_of [reading ''1'' NaN] (table_of [reading ''1'' NaN]) None) =
   (Return None,
    \<lparr>Stored = [], Tx = table_of [reading ''1'' NaN], Shepherd = None,
     Added = 0, Updated = 1, Deleted = 0,
     TxLog = [(CallUpdate (reading ''1'' NaN), None)]\<rparr>) \<and>
   Collection_Reconcile reflect_go table_Tx [''1''] [''1''] [''1''] [reading ''1'' NaN]
     \<lparr>Stored = [reading ''1'' NaN], Tx = table_of [reading ''1'' NaN], Shepherd = None,
      Added = 0, Updated = 1, Deleted = 0,
      TxLog = [(CallUpdate (reading ''1'' NaN), None)]\<rparr> =
   (Return None,
    \<lparr>Stored = [], Tx = table_of [reading ''1'' NaN], Shepherd = None,
     Added = 0, Updated = 2, Deleted = 0,
     TxLog = [(CallUpdate (reading ''1'' NaN), None),
              (CallUpdate (reading ''1'' NaN), None)]\<rparr>) \<and>
   Stored sample_end = [] \<and>
   \<not> lists_table (Stored sample_end) (Tx sample_end) \<and>
   Collection_Reconcile reflect_int table_Tx kd_sample ka_sample ku_sample desired_sample
     sample_end =
   (Return (Some (Error ''duplicate key'')),
    sample_end\<lparr>TxLog := TxLog sample_end @
      [(CallInsert (person ''4'' 0 5 13 24), Some (Error ''duplicate key''))]\<rparr>) \<and>
   lists_table [name_int ''1'' 3] (table_of [name_int ''1'' 3]) \<and>
   \<not> same_type (name_int ''1'' 3) (name_str ''1'' ''x'') \<and>
   Collection_Reconcile reflect_go table_Tx [''1''] [''1''] [''1''] [name_str ''1'' ''x'']
     (collection_of [name_int ''1'' 3] (table_of [name_int ''1'' 3]) None) =
   (Panicked (NotAssignable ''string'' ''int''),
    collection_of [] (table_of [name_int ''1'' 3]) None)"
proof -
  have restless: "lists_table [person ''2'' 1 0 11 21] (table_of [person ''2'' 1 0 11 21]) \<and>
   Collection_Reconcile reflect_int table_Tx [''2''] [''2''] [''2''] [person ''2'' 1 0 11 21]
     (collection_of [person ''2'' 1 0 11 21] (table_of [person ''2'' 1 0 11 21])
        (Some restless_shepherd)) =
   (Return None,
    \<lparr>Stored = [], Tx = table_of [person ''2'' 1 0 11 21], Shepherd = Some restless_shepherd,
     Added = 0, Updated = 1, Deleted = 0,
     TxLog = [(CallUpdate (person ''2'' 1 0 11 21), None)]\<rparr>) \<and>
   Collection_Reconcile reflect_int table_Tx [''2''] [''2''] [''2''] [person ''2'' 1 0 11 21]
     \<lparr>Stored = [person ''2'' 1 0 11 21], Tx = table_of [person ''2'' 1 0 11 21],
      Shepherd = Some restless_shepherd, Added = 0, Updated = 1, Deleted = 0,
      TxLog = [(CallUpdate (person ''2'' 1 0 11 21), None)]\<rparr> =
   (Return None,
    \<lparr>Stored = [], Tx = table_of [person ''2'' 1 0 11 21], Shepherd = Some restless_shepherd,
     Added = 0, Updated = 2, Deleted = 0,
     TxLog = [(CallUpdate (person ''2'' 1 0 11 21), None),
              (CallUpdate (person ''2'' 1 0 11 21), None)]\<rparr>)"
    by (simp add: lists_table_def Collection_Reconcile_def Collection_dispositions_def
        Collection_update_def collection_of_def restless_shepherd_def table_Tx_def table_of_def
        fun_eq_iff)
  have facts: "lists_table [reading ''1'' NaN] (table_of [reading ''1'' NaN]) \<and>
      same_type (reading ''1'' NaN) (reading ''1'' NaN) \<and>
      \<not> self_equal reflect_go (reading ''1'' NaN)"
    by (simp add: lists_table_def same_type_def self_equal_def reading_def key_field_def
        plain_field_def ignored_def Lookup_def reflect_go_def)
  have eq: "DefaultShepherd_Equals reflect_go (reading ''1'' NaN) (reading ''1'' NaN) = Inr False"
    by (simp add: DefaultShepherd_Equals_def Table_Fields_def reading_def key_field_def
        plain_field_def Equals_loop.simps ignored_def Lookup_def reflect_go_def)
  have up: "DefaultShepherd_Update reflect_go (reading ''1'' NaN) (reading ''1'' NaN) =
      Inr (reading ''1'' NaN)"
    by (simp add: DefaultShepherd_Update_def Table_Fields_def reading_def key_field_def
        plain_field_def Update_loop.simps ignored_def Lookup_def assignable_def)
  have pk: "Pk (reading ''1'' NaN) = ''1''" by (simp add: reading_def)
  have nan: "Collection_Reconcile reflect_go table_Tx [''1''] [''1''] [''1''] [reading ''1'' NaN]
     (collection_of [reading ''1'' NaN] (table_of [reading ''1'' NaN]) None) =
   (Return None,
    \<lparr>Stored = [], Tx = table_of [reading ''1'' NaN], Shepherd = None,
     Added = 0, Updated = 1, Deleted = 0,
     TxLog = [(CallUpdate (reading ''1'' NaN), None)]\<rparr>) \<and>
   Collection_Reconcile reflect_go table_Tx [''1''] [''1''] [''1''] [reading ''1'' NaN]
     \<lparr>Stored = [reading ''1'' NaN], Tx = table_of [reading ''1'' NaN], Shepherd = None,
      Added = 0, Updated = 1, Deleted = 0,
      TxLog = [(CallUpdate (reading ''1'' NaN), None)]\<rparr> =
   (Return None,
    \<lparr>Stored = [], Tx = table_of [reading ''1'' NaN], Shepherd = None,
     Added = 0, Updated = 2, Deleted = 0,
     TxLog = [(CallUpdate (reading ''1'' NaN), None),
              (CallUpdate (reading ''1'' NaN), None)]\<rparr>)"
    by (simp add: Collection_Reconcile_def Collection_dispositions_def Collection_update_def
        collection_of_def DefaultShepherd_def eq up pk table_Tx_def table_of_def fun_eq_iff)
  have row: "Tx sample_end ''2'' \<noteq> None"
    by (simp add: sample_end_def table_of_def)
  have nil: "Stored sample_end = []"
    by (simp add: sample_end_def)
  have "\<not> lists_table [] (Tx sample_end)"
  proof
    assume "lists_table [] (Tx sample_end)"
    then have "Tx sample_end = table_of []" by (simp add: lists_table_def)
    then have "Tx sample_end ''2'' = None" by (simp add: table_of_def)
    with row show False by simp
  qed
  with nil have drained: "Stored sample_end = [] \<and>
      \<not> lists_table (Stored sample_end) (Tx sample_end)"
    by simp
  have map2: "fst (Collection_dispositions sample_end desired_sample) =
      [''2'' \<mapsto> \<lparr>stored = None, desired = Some (person ''2'' 0 5 11 21)\<rparr>,
       ''3'' \<mapsto> \<lparr>stored = None, desired = Some (person ''3'' 0 5 12 23)\<rparr>,
       ''4'' \<mapsto> \<lparr>stored = None, desired = Some (person ''4'' 0 5 13 24)\<rparr>]"
    by (simp add: Collection_dispositions_def sample_end_def desired_sample_def)
  have again: "Collection_Reconcile reflect_int table_Tx kd_sample ka_sample ku_sample
      desired_sample sample_end =
    (Return (Some (Error ''duplicate key'')),
     sample_end\<lparr>TxLog := TxLog sample_end @
       [(CallInsert (person ''4'' 0 5 13 24), Some (Error ''duplicate key''))]\<rparr>)"
    unfolding Collection_Reconcile_def
    by (simp add: Collection_dispositions_def sample_end_def desired_sample_def kd_sample_def
        ka_sample_def table_Tx_def table_of_def)
  have types: "lists_table [name_int ''1'' 3] (table_of [name_int ''1'' 3]) \<and>
      \<not> same_type (name_int ''1'' 3) (name_str ''1'' ''x'')"
    by (simp add: lists_table_def same_type_def field_kind_def name_int_def name_str_def
        key_field_def plain_field_def)
  have eq2: "DefaultShepherd_Equals reflect_go (name_str ''1'' ''x'') (name_int ''1'' 3) =
      Inr False"
    by (simp add: DefaultShepherd_Equals_def Table_Fields_def name_int_def name_str_def
        key_field_def plain_field_def Equals_loop.simps ignored_def Lookup_def reflect_go_def)
  have up2: "DefaultShepherd_Update reflect_go (name_int ''1'' 3) (name_str ''1'' ''x'') =
      Inl (NotAssignable ''string'' ''int'')"
    by (simp add: DefaultShepherd_Update_def Table_Fields_def name_int_def name_str_def
        key_field_def plain_field_def Update_loop.simps ignored_def Lookup_def assignable_def
        reflect_go_def)
  have pks: "Pk (name_int ''1'' 3) = ''1''" "Pk (name_str ''1'' ''x'') = ''1''"
    by (simp_all add: name_int_def name_str_def)
  have panic: "Collection_Reconcile reflect_go table_Tx [''1''] [''1''] [''1'']
      [name_str ''1'' ''x'']
      (collection_of [name_int ''1'' 3] (table_of [name_int ''1'' 3]) None) =
    (Panicked (NotAssignable ''string'' ''int''),
     collection_of [] (table_of [name_int ''1'' 3]) None)"
    by (simp add: Collection_Reconcile_def Collection_dispositions_def Collection_update_def
        collection_of_def DefaultShepherd_def eq2 up2 pks)
  from restless facts nan drained again types panic show ?thesis
    by - (elim conjE, intro conjI, assumption+)
qed
end
